theory Spec2Isabelle
  imports Main
begin

section \<open>JavaScript values and strings\<close>

text \<open>
  The validators take arguments of any JavaScript type and branch on
  \<^verbatim>\<open>typeof x !== 'string'\<close>; the handlers branch on truthiness (\<^verbatim>\<open>!name\<close>).
  A value is therefore a tagged union. Numbers are integers here (the JSON numbers a
  request can carry that matter for truthiness are zero and non-zero), and every object
  or array is the single truthy value \<open>JObj\<close>.

  A string is a list of code units. The HOL type \<open>char\<close> has 256 values, read as the
  code units U+0000 .. U+00FF; the character classes below are the ECMAScript ones
  restricted to that range.
\<close>

datatype jsval = JUndefined | JNull | JBool bool | JNum int | JStr string | JObj

fun truthy :: "jsval \<Rightarrow> bool" where
  "truthy JUndefined = False"
| "truthy JNull = False"
| "truthy (JBool b) = b"
| "truthy (JNum n) = (n \<noteq> 0)"
| "truthy (JStr s) = (s \<noteq> [])"
| "truthy JObj = True"

definition code :: "char \<Rightarrow> nat" where
  "code c = of_char c"

text \<open>\<^verbatim>\<open>\d\<close> is \<^verbatim>\<open>[0-9]\<close>; \<^verbatim>\<open>\D\<close> is its complement.\<close>

definition isDigit :: "char \<Rightarrow> bool" where
  "isDigit c \<longleftrightarrow> 48 \<le> code c \<and> code c \<le> 57"

text \<open>\<^verbatim>\<open>[a-zA-Z]\<close>.\<close>

definition isLetter :: "char \<Rightarrow> bool" where
  "isLetter c \<longleftrightarrow> (97 \<le> code c \<and> code c \<le> 122) \<or> (65 \<le> code c \<and> code c \<le> 90)"

text \<open>\<^verbatim>\<open>\w\<close> is \<^verbatim>\<open>[A-Za-z0-9_]\<close>, also under the \<^verbatim>\<open>i\<close> flag without \<^verbatim>\<open>u\<close>.\<close>

definition isWord :: "char \<Rightarrow> bool" where
  "isWord c \<longleftrightarrow> isLetter c \<or> isDigit c \<or> code c = 95"

text \<open>
  \<^verbatim>\<open>\s\<close>, and what \<^verbatim>\<open>trim()\<close> strips: white space and line terminators. Below U+0100
  these are TAB, LF, VT, FF, CR, SPACE and NO-BREAK SPACE.
\<close>

definition isSpace :: "char \<Rightarrow> bool" where
  "isSpace c \<longleftrightarrow> code c \<in> {9, 10, 11, 12, 13, 32, 160}"

definition trim :: "string \<Rightarrow> string" where
  "trim s = rev (dropWhile isSpace (rev (dropWhile isSpace s)))"

text \<open>\<^verbatim>\<open>s.startsWith(p)\<close>.\<close>

definition startsWith :: "string \<Rightarrow> string \<Rightarrow> bool" where
  "startsWith s p \<longleftrightarrow> take (length p) s = p"

text \<open>\<^verbatim>\<open>s[i]\<close>: \<^verbatim>\<open>undefined\<close> out of range.\<close>

definition charAt :: "string \<Rightarrow> nat \<Rightarrow> char option" where
  "charAt s i = (if i < length s then Some (s ! i) else None)"

text \<open>
  \<^verbatim>\<open>s.slice(a, b)\<close> with a non-negative start: a negative end counts from the end of
  the string, an end beyond the string is the string's length.
\<close>

definition slice :: "string \<Rightarrow> nat \<Rightarrow> int \<Rightarrow> string" where
  "slice s a b =
     (let e = (if b < 0 then nat (int (length s) + b) else min (nat b) (length s))
      in drop a (take e s))"

text \<open>\<^verbatim>\<open>s.slice(a)\<close>.\<close>

definition sliceFrom :: "string \<Rightarrow> nat \<Rightarrow> string" where
  "sliceFrom s a = drop a s"


section \<open>lib/validators.js: validatePhone\<close>

record phone_result =
  valid :: bool
  cleaned :: "string option"

definition phone_invalid :: phone_result where
  "phone_invalid = \<lparr>valid = False, cleaned = None\<rparr>"

definition validatePhone :: "jsval \<Rightarrow> phone_result" where
  "validatePhone phone =
     (case phone of
        JStr p \<Rightarrow>
          (let cleaned0 = filter isDigit p;
               cleaned1 = (if length cleaned0 = 11 \<and> charAt cleaned0 0 = Some (CHR ''1'')
                           then sliceFrom cleaned0 1 else cleaned0)
           in if length cleaned1 \<noteq> 10 then phone_invalid
              else if charAt cleaned1 0 = Some (CHR ''0'') \<or> charAt cleaned1 0 = Some (CHR ''1'')
                then phone_invalid
              else if startsWith (trim p) ''-'' then phone_invalid
              else \<lparr>valid = True,
                    cleaned = Some (slice cleaned1 0 3 @ ''-'' @ slice cleaned1 3 6 @ ''-''
                                    @ sliceFrom cleaned1 6)\<rparr>)
      | _ \<Rightarrow> phone_invalid)"

text \<open>The claim's words, for comparison with the code.\<close>

definition spec_digits :: "string \<Rightarrow> string" where
  "spec_digits p =
     (let d = filter isDigit p
      in if length d = 11 \<and> hd d = CHR ''1'' then tl d else d)"

definition spec_canonical :: "string \<Rightarrow> bool" where
  "spec_canonical c \<longleftrightarrow>
     length c = 12 \<and> c ! 3 = CHR ''-'' \<and> c ! 7 = CHR ''-'' \<and>
     list_all isDigit (take 3 c @ take 3 (drop 4 c) @ drop 8 c)"

definition spec_phone_ok :: "string \<Rightarrow> bool" where
  "spec_phone_ok p \<longleftrightarrow>
     length (spec_digits p) = 10 \<and>
     hd (spec_digits p) \<noteq> CHR ''0'' \<and> hd (spec_digits p) \<noteq> CHR ''1'' \<and>
     \<not> startsWith (trim p) ''-''"


section \<open>lib/validators.js: RateLimiter\<close>

text \<open>
  The class holds \<open>limit\<close>, \<open>windowMs\<close> (10 and 60000 when the constructor gets no
  arguments) and a \<open>Map\<close> from identifier to the array of admission times. Identifiers are Map keys of any type, so the key type is a parameter.
  Every read of \<^verbatim>\<open>Date.now()\<close> is an argument, and so is the outcome of
  \<^verbatim>\<open>Math.random() < 0.01\<close> that triggers the opportunistic sweep.
\<close>

record 'k RateLimiter =
  limit :: int
  windowMs :: int
  requests :: "'k \<rightharpoonup> int list"

definition new_RateLimiter :: "int \<Rightarrow> int \<Rightarrow> 'k RateLimiter" where
  "new_RateLimiter l w = \<lparr>limit = l, windowMs = w, requests = Map.empty\<rparr>"

text \<open>\<^verbatim>\<open>this.requests.get(identifier) || []\<close>.\<close>

definition userRequests :: "'k RateLimiter \<Rightarrow> 'k \<Rightarrow> int list" where
  "userRequests rl identifier = (case requests rl identifier of Some ts \<Rightarrow> ts | None \<Rightarrow> [])"

text \<open>\<^verbatim>\<open>xs.filter(time => now - time < this.windowMs)\<close>.\<close>

definition recent :: "'k RateLimiter \<Rightarrow> int \<Rightarrow> int list \<Rightarrow> int list" where
  "recent rl now ts = filter (\<lambda>time. now - time < windowMs rl) ts"

definition cleanup :: "int \<Rightarrow> 'k RateLimiter \<Rightarrow> 'k RateLimiter" where
  "cleanup now rl =
     rl\<lparr>requests :=
          (\<lambda>key. case requests rl key of
                    None \<Rightarrow> None
                  | Some reqs \<Rightarrow>
                      (if length (recent rl now reqs) = 0 then None
                       else Some (recent rl now reqs)))\<rparr>"

definition checkLimit :: "'k \<Rightarrow> int \<Rightarrow> bool \<Rightarrow> int \<Rightarrow> 'k RateLimiter \<Rightarrow> bool \<times> 'k RateLimiter" where
  "checkLimit identifier now sweep sweepNow rl =
     (let recentRequests = recent rl now (userRequests rl identifier)
      in if limit rl \<le> int (length recentRequests) then (False, rl)
         else
           (let rl' = rl\<lparr>requests := (requests rl)(identifier \<mapsto> recentRequests @ [now])\<rparr>
            in (True, if sweep then cleanup sweepNow rl' else rl')))"

definition reset :: "'k \<Rightarrow> 'k RateLimiter \<Rightarrow> 'k RateLimiter" where
  "reset identifier rl = rl\<lparr>requests := (requests rl)(identifier := None)\<rparr>"

definition getRemaining :: "'k \<Rightarrow> int \<Rightarrow> 'k RateLimiter \<Rightarrow> int" where
  "getRemaining identifier now rl =
     max 0 (limit rl - int (length (recent rl now (userRequests rl identifier))))"

text \<open>A history of calls on one limiter, each with the clock values it reads.\<close>

datatype 'k event = CheckLimit 'k int bool int | Cleanup int | Reset 'k

fun exec :: "'k event \<Rightarrow> 'k RateLimiter \<Rightarrow> 'k RateLimiter" where
  "exec (CheckLimit identifier now sweep sweepNow) rl =
     snd (checkLimit identifier now sweep sweepNow rl)"
| "exec (Cleanup now) rl = cleanup now rl"
| "exec (Reset identifier) rl = reset identifier rl"

fun run :: "'k event list \<Rightarrow> 'k RateLimiter \<Rightarrow> 'k RateLimiter" where
  "run [] rl = rl"
| "run (e # es) rl = run es (exec e rl)"

text \<open>The clock values an event reads: the sweep reads the clock only when it runs.\<close>

fun clock_reads :: "'k event \<Rightarrow> int list" where
  "clock_reads (CheckLimit identifier now sweep sweepNow) =
     (if sweep then [now, sweepNow] else [now])"
| "clock_reads (Cleanup now) = [now]"
| "clock_reads (Reset identifier) = []"

text \<open>The times at which \<open>checkLimit identifier\<close> returned true in a history.\<close>

fun admitted_now :: "'k \<Rightarrow> 'k event \<Rightarrow> 'k RateLimiter \<Rightarrow> int list" where
  "admitted_now k (CheckLimit identifier now sweep sweepNow) rl =
     (if identifier = k \<and> fst (checkLimit identifier now sweep sweepNow rl) then [now] else [])"
| "admitted_now k (Cleanup now) rl = []"
| "admitted_now k (Reset identifier) rl = []"

fun admitted :: "'k \<Rightarrow> 'k event list \<Rightarrow> 'k RateLimiter \<Rightarrow> int list" where
  "admitted k [] rl = []"
| "admitted k (e # es) rl = admitted_now k e rl @ admitted k es (exec e rl)"

text \<open>The history is one a monotonic clock can produce up to \<open>now\<close>, with no reset of \<open>k\<close>.\<close>

definition quiet_until :: "'k \<Rightarrow> int \<Rightarrow> 'k event list \<Rightarrow> bool" where
  "quiet_until k now es \<longleftrightarrow>
     list_all (\<lambda>e. e \<noteq> Reset k \<and> list_all (\<lambda>t. t \<le> now) (clock_reads e)) es"

text \<open>Every stored array is non-empty and no longer than the capacity.\<close>

definition bounded :: "'k RateLimiter \<Rightarrow> bool" where
  "bounded rl \<longleftrightarrow>
     (\<forall>k ts. requests rl k = Some ts \<longrightarrow> ts \<noteq> [] \<and> int (length ts) \<le> limit rl)"


section \<open>Regular-expression replacement\<close>

text \<open>
  Case folding for the \<^verbatim>\<open>i\<close> flag (without \<^verbatim>\<open>u\<close>): the patterns are ASCII, and a pattern
  character matches an input character when both have the same upper case, which below
  U+0100 means they are the same letter in either case.
\<close>

definition asciiLower :: "char \<Rightarrow> char" where
  "asciiLower c = (if 65 \<le> code c \<and> code c \<le> 90 then char_of (code c + 32) else c)"

text \<open>The literal pattern \<open>pat\<close> matches, ignoring case, at the head of the input.\<close>

fun starts_ci :: "string \<Rightarrow> string \<Rightarrow> bool" where
  "starts_ci [] s = True"
| "starts_ci (p # ps) [] = False"
| "starts_ci (p # ps) (c # cs) = (asciiLower c = asciiLower p \<and> starts_ci ps cs)"

text \<open>
  \<^verbatim>\<open>s.replace(/re/g, '')\<close>: the matcher gives the length of the match of the expression at
  the head of the remaining input, if there is one. Scanning is left to right; a match is
  dropped and scanning resumes behind it; an empty match keeps the character and moves on.
\<close>

fun replaceAll :: "(string \<Rightarrow> nat option) \<Rightarrow> string \<Rightarrow> string" where
  "replaceAll m [] = []"
| "replaceAll m (c # cs) =
     (case m (c # cs) of
        None \<Rightarrow> c # replaceAll m cs
      | Some 0 \<Rightarrow> c # replaceAll m cs
      | Some (Suc n) \<Rightarrow> replaceAll m (drop n cs))"

text \<open>Offset behind the first occurrence, ignoring case, of a literal in the input.\<close>

fun find_ci :: "string \<Rightarrow> string \<Rightarrow> nat option" where
  "find_ci pat [] = None"
| "find_ci pat (c # cs) =
     (if starts_ci pat (c # cs) then Some (length pat)
      else map_option Suc (find_ci pat cs))"

text \<open>
  \<^verbatim>\<open>/<script\b[^<]*(?:(?!<\/script>)<[^<]*)*<\/script>/gi\<close> and the same for \<^verbatim>\<open>style\<close>.
  After the opening name the word boundary asks for a non-word character or the end of
  input. The rest of the expression walks from \<^verbatim>\<open><\<close> to \<^verbatim>\<open><\<close>, never over a closing tag, and
  must end in one: it matches up to the end of the first closing tag, and fails when there
  is none.
\<close>

definition match_element :: "string \<Rightarrow> string \<Rightarrow> nat option" where
  "match_element tag s =
     (let opening = CHR ''<'' # tag; rest = drop (length opening) s
      in if starts_ci opening s \<and> (case rest of [] \<Rightarrow> True | c # _ \<Rightarrow> \<not> isWord c)
         then map_option (\<lambda>n. length opening + n) (find_ci (''</'' @ tag @ ''>'') rest)
         else None)"

text \<open>\<^verbatim>\<open>/<[^>]*>/g\<close>: from \<^verbatim>\<open><\<close> to the next \<^verbatim>\<open>>\<close>.\<close>

definition match_tag :: "string \<Rightarrow> nat option" where
  "match_tag s =
     (case s of
        [] \<Rightarrow> None
      | c # cs \<Rightarrow>
          (let body = takeWhile (\<lambda>x. x \<noteq> CHR ''>'') cs
           in if c = CHR ''<'' \<and> length body < length cs then Some (length body + 2) else None))"

text \<open>\<^verbatim>\<open>/[<>\"']/g\<close>.\<close>

definition isSpecial :: "char \<Rightarrow> bool" where
  "isSpecial c \<longleftrightarrow> c = CHR ''<'' \<or> c = CHR ''>'' \<or> c = CHR 0x22 \<or> c = CHR 0x27"

text \<open>\<^verbatim>\<open>/javascript:/gi\<close>.\<close>

definition match_literal_ci :: "string \<Rightarrow> string \<Rightarrow> nat option" where
  "match_literal_ci pat s = (if starts_ci pat s then Some (length pat) else None)"

text \<open>
  \<^verbatim>\<open>/on\w+\s*=/gi\<close>: the greedy runs of word characters and of white space are followed by
  \<^verbatim>\<open>=\<close>, which is in neither class, so giving characters back never helps.
\<close>

definition match_handler :: "string \<Rightarrow> nat option" where
  "match_handler s =
     (let r0 = drop 2 s;
          w = takeWhile isWord r0; r1 = dropWhile isWord r0;
          sp = takeWhile isSpace r1; r2 = dropWhile isSpace r1
      in if starts_ci ''on'' s \<and> w \<noteq> [] \<and> (case r2 of [] \<Rightarrow> False | c # _ \<Rightarrow> c = CHR ''='')
         then Some (2 + length w + length sp + 1) else None)"


section \<open>lib/validators.js: sanitizeString\<close>

text \<open>
  \<open>maxLength\<close> is the second argument (200 when the caller leaves it out); it goes to
  \<^verbatim>\<open>slice(0, maxLength)\<close> unchecked.
\<close>

definition sanitizeString :: "jsval \<Rightarrow> int \<Rightarrow> string" where
  "sanitizeString str maxLength =
     (case str of
        JStr s \<Rightarrow>
          slice
            (trim
              (replaceAll match_handler
                (replaceAll (match_literal_ci ''javascript:'')
                  (filter (\<lambda>c. \<not> isSpecial c)
                    (replaceAll match_tag
                      (replaceAll (match_element ''style'')
                        (replaceAll (match_element ''script'') s)))))))
            0 maxLength
      | _ \<Rightarrow> [])"

definition sanitizeString_default :: "jsval \<Rightarrow> string" where
  "sanitizeString_default str = sanitizeString str 200"


section \<open>lib/validators.js: validateName\<close>

record name_result =
  name_valid :: bool
  reason :: "string option"

text \<open>\<^verbatim>\<open>s.includes(sub)\<close>.\<close>

fun str_includes :: "string \<Rightarrow> string \<Rightarrow> bool" where
  "str_includes [] sub = (sub = [])"
| "str_includes (c # cs) sub = (startsWith (c # cs) sub \<or> str_includes cs sub)"

text \<open>\<^verbatim>\<open>s.toLowerCase()\<close> below U+0100: A-Z, and the Latin-1 capitals except the times sign.\<close>

definition lowerChar :: "char \<Rightarrow> char" where
  "lowerChar c =
     (if (65 \<le> code c \<and> code c \<le> 90) \<or> (192 \<le> code c \<and> code c \<le> 222 \<and> code c \<noteq> 215)
      then char_of (code c + 32) else c)"

definition toLowerCase :: "string \<Rightarrow> string" where
  "toLowerCase s = map lowerChar s"

text \<open>\<^verbatim>\<open>[a-zA-Z\s\-']\<close>.\<close>

definition isNameChar :: "char \<Rightarrow> bool" where
  "isNameChar c \<longleftrightarrow> isLetter c \<or> isSpace c \<or> c = CHR ''-'' \<or> c = CHR 0x27"

definition validateName :: "jsval \<Rightarrow> name_result" where
  "validateName name =
     (case name of
        JStr s \<Rightarrow>
          (let cleaned = trim s
           in if length cleaned < 2 then \<lparr>name_valid = False, reason = Some ''Name too short''\<rparr>
              else if length cleaned > 100
                then \<lparr>name_valid = False, reason = Some ''Name too long''\<rparr>
              else if \<not> (cleaned \<noteq> [] \<and> list_all isNameChar cleaned)
                then \<lparr>name_valid = False, reason = Some ''Name contains invalid characters''\<rparr>
              else if str_includes cleaned ''--'' \<or> str_includes cleaned ''/*'' \<or> str_includes cleaned ''*/''
                      \<or> str_includes cleaned '';'' \<or> str_includes (toLowerCase cleaned) ''drop''
                      \<or> str_includes (toLowerCase cleaned) ''delete''
                      \<or> str_includes (toLowerCase cleaned) ''union''
                then \<lparr>name_valid = False, reason = Some ''Name contains invalid characters''\<rparr>
              else if \<not> list_ex isLetter cleaned
                then \<lparr>name_valid = False, reason = Some ''Name must contain letters''\<rparr>
              else \<lparr>name_valid = True, reason = None\<rparr>)
      | _ \<Rightarrow> \<lparr>name_valid = False, reason = Some ''Name must be a string''\<rparr>)"

text \<open>The name validator in the claim's words, for comparison with the code.\<close>

definition contains :: "string \<Rightarrow> string \<Rightarrow> bool" where
  "contains t sub \<longleftrightarrow> (\<exists>pre post. t = pre @ sub @ post)"

definition contains_ci :: "string \<Rightarrow> string \<Rightarrow> bool" where
  "contains_ci t sub \<longleftrightarrow> (\<exists>pre w post. t = pre @ w @ post \<and> toLowerCase w = sub)"

text \<open>
  The words are read as the source reads them: its comment on \<^verbatim>\<open>/^[a-zA-Z\s\-']+$/\<close> names
  the class \<open>letters, spaces, hyphens, apostrophes\<close>, so letters are \<^verbatim>\<open>[a-zA-Z]\<close> and spaces
  are \<^verbatim>\<open>\s\<close>; a name contains a word when the word occurs in it, in any letter case.
\<close>

definition spec_name_ok :: "string \<Rightarrow> bool" where
  "spec_name_ok s \<longleftrightarrow>
     2 \<le> length (trim s) \<and> length (trim s) \<le> 100 \<and>
     (\<forall>c\<in>set (trim s). isLetter c \<or> isSpace c \<or> c = CHR ''-'' \<or> c = CHR 0x27) \<and>
     (\<exists>c\<in>set (trim s). isLetter c) \<and>
     \<not> contains (trim s) ''--'' \<and> \<not> contains (trim s) ''/*'' \<and>
     \<not> contains (trim s) ''*/'' \<and> \<not> contains (trim s) '';'' \<and>
     \<not> contains_ci (trim s) ''drop'' \<and> \<not> contains_ci (trim s) ''delete'' \<and>
     \<not> contains_ci (trim s) ''union''"


section \<open>Regular-expression tests with word boundaries\<close>

text \<open>
  The expressions tested against an address are sequences of single-character patterns
  between two \<^verbatim>\<open>\b\<close>, or without them. \<open>Dot\<close> is the unescaped \<^verbatim>\<open>.\<close>: any character but a
  line terminator.
\<close>

datatype pat = Lit char | Dot | Digit | Range char char

definition isLineTerminator :: "char \<Rightarrow> bool" where
  "isLineTerminator c \<longleftrightarrow> code c = 10 \<or> code c = 13"

fun pat_ok :: "pat \<Rightarrow> char \<Rightarrow> bool" where
  "pat_ok (Lit p) c = (c = p)"
| "pat_ok Dot c = (\<not> isLineTerminator c)"
| "pat_ok Digit c = isDigit c"
| "pat_ok (Range a b) c = (code a \<le> code c \<and> code c \<le> code b)"

text \<open>
  Matching a sequence at the head of the input gives the last character consumed (the
  character before the match when the sequence is empty) and the rest of the input.
\<close>

fun match_seq :: "pat list \<Rightarrow> char option \<Rightarrow> string \<Rightarrow> (char option \<times> string) option" where
  "match_seq [] prev s = Some (prev, s)"
| "match_seq (p # ps) prev [] = None"
| "match_seq (p # ps) prev (c # cs) = (if pat_ok p c then match_seq ps (Some c) cs else None)"

definition wordOpt :: "char option \<Rightarrow> bool" where
  "wordOpt x = (case x of None \<Rightarrow> False | Some c \<Rightarrow> isWord c)"

definition nextChar :: "string \<Rightarrow> char option" where
  "nextChar s = (case s of [] \<Rightarrow> None | c # _ \<Rightarrow> Some c)"

text \<open>\<^verbatim>\<open>\b\<close>: exactly one of the characters before and after the position is a word character.\<close>

definition boundary :: "char option \<Rightarrow> string \<Rightarrow> bool" where
  "boundary prev s \<longleftrightarrow> wordOpt prev \<noteq> wordOpt (nextChar s)"

definition match_word_at :: "pat list \<Rightarrow> char option \<Rightarrow> string \<Rightarrow> bool" where
  "match_word_at ps prev s \<longleftrightarrow>
     boundary prev s \<and>
     (case match_seq ps prev s of None \<Rightarrow> False | Some (l, rest) \<Rightarrow> boundary l rest)"

text \<open>\<^verbatim>\<open>/\b...\b/.test(s)\<close>: a match at some position; \<open>prev\<close> is the character before \<open>s\<close>.\<close>

fun test_word :: "pat list \<Rightarrow> char option \<Rightarrow> string \<Rightarrow> bool" where
  "test_word ps prev [] = match_word_at ps prev []"
| "test_word ps prev (c # cs) = (match_word_at ps prev (c # cs) \<or> test_word ps (Some c) cs)"

text \<open>\<^verbatim>\<open>/.../.test(s)\<close> without boundaries.\<close>

fun test_anywhere :: "pat list \<Rightarrow> string \<Rightarrow> bool" where
  "test_anywhere ps [] = (match_seq ps None [] \<noteq> None)"
| "test_anywhere ps (c # cs) = (match_seq ps None (c # cs) \<noteq> None \<or> test_anywhere ps cs)"


section \<open>lib/validators.js: validateSFAddress\<close>

definition sfIndicators :: "string list" where
  "sfIndicators = [''sf'', ''san francisco'', ''sanfrancisco'', ''s.f.'', ''san fran'']"

text \<open>
  \<^verbatim>\<open>new RegExp(`\\b${indicator.replace('.', '\\.')}\\b`)\<close>: \<^verbatim>\<open>replace\<close> with a string pattern
  escapes the first dot only; a later dot stays the wildcard. The indicators hold no other
  character that is special in an expression.
\<close>

definition regex_char :: "char \<Rightarrow> pat" where
  "regex_char c = (if c = CHR ''.'' then Dot else Lit c)"

fun indicator_regex :: "string \<Rightarrow> pat list" where
  "indicator_regex [] = []"
| "indicator_regex (c # cs) =
     (if c = CHR ''.'' then Lit c # map regex_char cs else Lit c # indicator_regex cs)"

text \<open>\<^verbatim>\<open>/\b94(1[0-8]\d|0\d{2})\b/\<close>: one of the two alternatives between the boundaries.\<close>

definition hasSFZip :: "string \<Rightarrow> bool" where
  "hasSFZip addr \<longleftrightarrow>
     test_word [Lit (CHR ''9''), Lit (CHR ''4''), Lit (CHR ''1''), Range (CHR ''0'') (CHR ''8''), Digit]
       None addr \<or>
     test_word [Lit (CHR ''9''), Lit (CHR ''4''), Lit (CHR ''0''), Digit, Digit] None addr"

definition hasSFText :: "string \<Rightarrow> bool" where
  "hasSFText addr \<longleftrightarrow>
     list_ex (\<lambda>indicator. test_word (indicator_regex indicator) None addr) sfIndicators"

definition validateSFAddress :: "jsval \<Rightarrow> bool" where
  "validateSFAddress address =
     (case address of
        JStr a \<Rightarrow> (let addr = toLowerCase a in hasSFText addr \<or> hasSFZip addr)
      | _ \<Rightarrow> False)"

text \<open>An indicator as a whole word or phrase, in the claim's words.\<close>

definition whole_word :: "string \<Rightarrow> string \<Rightarrow> bool" where
  "whole_word w t \<longleftrightarrow>
     (\<exists>pre post. t = pre @ w @ post \<and>
        (pre = [] \<or> \<not> isWord (last pre)) \<and> (post = [] \<or> \<not> isWord (hd post)))"


section \<open>api/mcp.js and index.js: the handlers' own validators\<close>

text \<open>
  The two request handlers do not import lib/validators.js. Each defines its own
  \<open>sanitizeString\<close>, \<open>validatePhone\<close> and \<open>validateSFAddress\<close>; the definitions of the two
  files agree except that those of index.js test \<^verbatim>\<open>typeof x !== 'string'\<close> first, where
  those of api/mcp.js call a string method on the argument and throw a TypeError when it
  is not a string.
\<close>

datatype js_error = TypeError

definition handler_sanitizeString :: "jsval \<Rightarrow> int \<Rightarrow> string" where
  "handler_sanitizeString str maxLength =
     (case str of
        JStr s \<Rightarrow> slice (trim (filter (\<lambda>c. \<not> isSpecial c) (replaceAll match_tag s))) 0 maxLength
      | _ \<Rightarrow> [])"

definition handler_phone :: "string \<Rightarrow> phone_result" where
  "handler_phone p =
     (let cleaned = filter isDigit p
      in if length cleaned \<noteq> 10 then phone_invalid
         else \<lparr>valid = True,
               cleaned = Some (slice cleaned 0 3 @ ''-'' @ slice cleaned 3 6 @ ''-''
                               @ sliceFrom cleaned 6)\<rparr>)"

definition index_validatePhone :: "jsval \<Rightarrow> phone_result" where
  "index_validatePhone phone = (case phone of JStr p \<Rightarrow> handler_phone p | _ \<Rightarrow> phone_invalid)"

definition mcp_validatePhone :: "jsval \<Rightarrow> js_error + phone_result" where
  "mcp_validatePhone phone = (case phone of JStr p \<Rightarrow> Inr (handler_phone p) | _ \<Rightarrow> Inl TypeError)"

definition handler_sfIndicators :: "string list" where
  "handler_sfIndicators = [''sf'', ''san francisco'', ''sanfrancisco'']"

text \<open>\<^verbatim>\<open>sfIndicators.some(indicator => addr.includes(indicator)) || /94[01]\d{2}/.test(addr)\<close>.\<close>

definition handler_sf :: "string \<Rightarrow> bool" where
  "handler_sf a =
     (let addr = toLowerCase a
      in list_ex (\<lambda>indicator. str_includes addr indicator) handler_sfIndicators \<or>
         test_anywhere [Lit (CHR ''9''), Lit (CHR ''4''), Range (CHR ''0'') (CHR ''1''), Digit, Digit]
           addr)"

definition index_validateSFAddress :: "jsval \<Rightarrow> bool" where
  "index_validateSFAddress address = (case address of JStr a \<Rightarrow> handler_sf a | _ \<Rightarrow> False)"

definition mcp_validateSFAddress :: "jsval \<Rightarrow> js_error + bool" where
  "mcp_validateSFAddress address =
     (case address of JStr a \<Rightarrow> Inr (handler_sf a) | _ \<Rightarrow> Inl TypeError)"


section \<open>The Notifier and the environment\<close>

text \<open>
  The mail that goes to \<^verbatim>\<open>resend.emails.send\<close>: sender, recipients, subject, and the three
  fields the text and HTML bodies are built from (the bodies also hold the time of day).
\<close>

record email =
  from_addr :: string
  to_addrs :: "string list"
  subject :: string
  body_name :: string
  body_phone :: "string option"
  body_address :: string

text \<open>
  What the call to the Notifier does: it resolves with a message id, resolves with an
  \<open>error\<close> field, returns a promise that rejects, throws, or never settles.
\<close>

datatype send_outcome = Delivered | ErrorResult | Rejects | Throws | Hangs

text \<open>\<^verbatim>\<open>s.split(',')\<close>, and the recipients \<^verbatim>\<open>s.split(',').map(e => e.trim())\<close>.\<close>

fun split_comma :: "string \<Rightarrow> string list" where
  "split_comma [] = [] # []"
| "split_comma (c # cs) =
     (if c = CHR '','' then [] # split_comma cs
      else (case split_comma cs of [] \<Rightarrow> [c] # [] | p # ps \<Rightarrow> (c # p) # ps))"

definition recipients :: "string \<Rightarrow> string list" where
  "recipients s = map trim (split_comma s)"

text \<open>
  \<^verbatim>\<open>a || b\<close> on an environment variable or a header: unset and empty are both falsy.
\<close>

definition or_else :: "string option \<Rightarrow> string \<Rightarrow> string" where
  "or_else v d = (case v of None \<Rightarrow> d | Some s \<Rightarrow> if s = [] then d else s)"

record tool_args =
  arg_name :: jsval
  arg_phone :: jsval
  arg_address :: jsval

definition decline_message :: string where
  "decline_message =
     ''Sorry, we only serve San Francisco currently. We're expanding - stay tuned!''"

definition success_message :: string where
  "success_message = ''Successfully booked the maid. Will get confirmation shortly.''"


section \<open>api/mcp.js: the HTTP handler\<close>

text \<open>The module-level rate limit: 10 requests per 60000 ms and client address.\<close>

definition RATE_LIMIT :: nat where
  "RATE_LIMIT = 10"

definition RATE_WINDOW :: int where
  "RATE_WINDOW = 60000"

type_synonym request_store = "string \<rightharpoonup> int list"

definition checkRateLimit :: "string \<Rightarrow> int \<Rightarrow> request_store \<Rightarrow> bool \<times> request_store" where
  "checkRateLimit ip now store =
     (let userRequests = (case store ip of Some ts \<Rightarrow> ts | None \<Rightarrow> []);
          recentRequests = filter (\<lambda>time. now - time < RATE_WINDOW) userRequests
      in if length recentRequests \<ge> RATE_LIMIT then (False, store)
         else (True, store(ip \<mapsto> recentRequests @ [now])))"

record mcp_env =
  RESEND_API_KEY :: "string option"
  FROM_EMAIL :: "string option"
  PARTNER_EMAILS :: "string option"

text \<open>
  The handler also sets response headers and writes a log line per request; neither
  is part of the result here. The request as the handler reads it: the HTTP method, the three places the client address
  is looked for, and the parsed body (\<open>None\<close> when it is missing or not an object) with its
  \<open>method\<close>, \<open>params.name\<close>, \<open>params.arguments\<close> (absent fields are \<open>undefined\<close>) and the length
  of its JSON text.
\<close>

record rpc_body =
  rpc_method :: jsval
  tool :: jsval
  arguments :: tool_args
  json_length :: nat

record http_request =
  http_method :: string
  x_forwarded_for :: "string option"
  x_real_ip :: "string option"
  remoteAddress :: "string option"
  body :: "rpc_body option"

definition clientIp :: "http_request \<Rightarrow> string" where
  "clientIp req =
     or_else (x_forwarded_for req) (or_else (x_real_ip req) (or_else (remoteAddress req) ''unknown''))"

datatype payload = Error string | Content string | InitializeInfo | ToolList

datatype http_response = Json nat payload | End nat

text \<open>
  What a call of the handler leaves behind: the response (\<open>None\<close> when the handler never
  answers), the mails handed to the Notifier, and the rate-limit store.
\<close>

record mcp_result =
  response :: "http_response option"
  emails :: "email list"
  store :: request_store

definition mcp_reply :: "request_store \<Rightarrow> http_response \<Rightarrow> mcp_result" where
  "mcp_reply st r = \<lparr>response = Some r, emails = [], store = st\<rparr>"

definition mcp_unavailable :: http_response where
  "mcp_unavailable = Json 500 (Error ''Service temporarily unavailable. Please try again.'')"

definition mcp_send ::
    "mcp_env \<Rightarrow> (email \<Rightarrow> send_outcome) \<Rightarrow> request_store \<Rightarrow> string \<Rightarrow> phone_result \<Rightarrow> string
      \<Rightarrow> mcp_result" where
  "mcp_send env send st cleanName phoneValidation cleanAddress =
     (if or_else (RESEND_API_KEY env) [] = []
      then mcp_reply st (Json 500 (Error ''Email service temporarily unavailable''))
      else
        (let mail = \<lparr>from_addr = or_else (FROM_EMAIL env) ''onboarding@resend.dev'',
                     to_addrs = recipients
                       (or_else (PARTNER_EMAILS env) ''ranadaytoday@outlook.com''),
                     subject = ''Cleaning Request - SF'',
                     body_name = cleanName,
                     body_phone = cleaned phoneValidation,
                     body_address = cleanAddress\<rparr>
         in \<lparr>response =
               (case send mail of
                  Delivered \<Rightarrow> Some (Json 200 (Content success_message))
                | ErrorResult \<Rightarrow> Some (Json 500 (Error
                    ''Failed to send booking request. Please try again.''))
                | Rejects \<Rightarrow> Some mcp_unavailable
                | Throws \<Rightarrow> Some mcp_unavailable
                | Hangs \<Rightarrow> None),
             emails = [mail], store = st\<rparr>))"

text \<open>
  The body of the \<^verbatim>\<open>try\<close> block for \<^verbatim>\<open>tools/call\<close> of \<^verbatim>\<open>request_cleaning\<close>; a TypeError
  thrown inside goes to the \<^verbatim>\<open>catch\<close>, which answers 500.
\<close>

definition mcp_request_cleaning ::
    "mcp_env \<Rightarrow> (email \<Rightarrow> send_outcome) \<Rightarrow> request_store \<Rightarrow> tool_args \<Rightarrow> mcp_result" where
  "mcp_request_cleaning env send st args =
     (if \<not> truthy (arg_name args) \<or> \<not> truthy (arg_phone args) \<or> \<not> truthy (arg_address args)
      then mcp_reply st (Json 400 (Error ''Missing required fields: name, phone, and address''))
      else
        (let cleanName = handler_sanitizeString (arg_name args) 100;
             cleanAddress = handler_sanitizeString (arg_address args) 200
         in if length cleanName < 2
            then mcp_reply st (Json 400 (Error ''Invalid name provided''))
            else
              (case mcp_validatePhone (arg_phone args) of
                 Inl TypeError \<Rightarrow> mcp_reply st mcp_unavailable
               | Inr phoneValidation \<Rightarrow>
                   if \<not> valid phoneValidation
                   then mcp_reply st (Json 400 (Error
                     ''Invalid phone number. Please provide a 10-digit US phone number.''))
                   else
                     (case mcp_validateSFAddress (JStr cleanAddress) of
                        Inl TypeError \<Rightarrow> mcp_reply st mcp_unavailable
                      | Inr inSF \<Rightarrow>
                          if \<not> inSF then mcp_reply st (Json 200 (Content decline_message))
                          else mcp_send env send st cleanName phoneValidation cleanAddress))))"

definition mcp_handler ::
    "mcp_env \<Rightarrow> (email \<Rightarrow> send_outcome) \<Rightarrow> int \<Rightarrow> request_store \<Rightarrow> http_request \<Rightarrow> mcp_result" where
  "mcp_handler env send now st0 req =
     (if http_method req = ''OPTIONS'' then mcp_reply st0 (End 200)
      else if http_method req \<noteq> ''POST''
      then mcp_reply st0 (Json 405 (Error ''Method not allowed''))
      else
        (case checkRateLimit (clientIp req) now st0 of
           (False, st) \<Rightarrow>
             mcp_reply st (Json 429 (Error ''Too many requests. Please try again later.''))
         | (True, st) \<Rightarrow>
             (case body req of
                None \<Rightarrow> mcp_reply st (Json 400 (Error ''Invalid request body''))
              | Some b \<Rightarrow>
                  if json_length b > 10000
                  then mcp_reply st (Json 413 (Error ''Request too large''))
                  else if rpc_method b = JStr ''initialize''
                  then mcp_reply st (Json 200 InitializeInfo)
                  else if rpc_method b = JStr ''tools/list''
                  then mcp_reply st (Json 200 ToolList)
                  else if rpc_method b = JStr ''tools/call'' \<and> tool b = JStr ''request_cleaning''
                  then mcp_request_cleaning env send st (arguments b)
                  else mcp_reply st (Json 400 (Error ''Unknown method'')))))"


section \<open>index.js: the stdio server's tool handler\<close>

text \<open>
  The server exits at start-up unless \<open>FROM_EMAIL\<close> and \<open>PARTNER_EMAILS\<close> are set, so both are
  strings here. The handler consults no rate limiter. Its result is the text of the reply
  and the mails handed to the Notifier.
\<close>

record index_env =
  index_FROM_EMAIL :: string
  index_PARTNER_EMAILS :: string

record index_request =
  params_name :: jsval
  params_arguments :: tool_args

record index_result =
  reply :: string
  sent :: "email list"

definition index_reply :: "string \<Rightarrow> index_result" where
  "index_reply t = \<lparr>reply = t, sent = []\<rparr>"

definition index_handler ::
    "index_env \<Rightarrow> (email \<Rightarrow> send_outcome) \<Rightarrow> index_request \<Rightarrow> index_result" where
  "index_handler env send request =
     (if params_name request = JStr ''request_cleaning''
      then
        (let args = params_arguments request
         in if \<not> truthy (arg_name args) \<or> \<not> truthy (arg_phone args) \<or> \<not> truthy (arg_address args)
            then index_reply ''Error: All fields (name, phone, address) are required.''
            else
              (let cleanName = handler_sanitizeString (arg_name args) 100;
                   cleanAddress = handler_sanitizeString (arg_address args) 200
               in if length cleanName < 2
                  then index_reply ''Error: Please provide a valid name (at least 2 characters).''
                  else if \<not> valid (index_validatePhone (arg_phone args))
                  then index_reply ''Error: Please provide a valid 10-digit US phone number.''
                  else if length cleanAddress < 10
                  then index_reply ''Error: Please provide a complete address.''
                  else if \<not> index_validateSFAddress (JStr cleanAddress)
                  then index_reply decline_message
                  else
                    (let mail = \<lparr>from_addr = index_FROM_EMAIL env,
                                 to_addrs = recipients (index_PARTNER_EMAILS env),
                                 subject = ''Cleaning Request - SF'',
                                 body_name = cleanName,
                                 body_phone = cleaned (index_validatePhone (arg_phone args)),
                                 body_address = cleanAddress\<rparr>
                     in \<lparr>reply =
                           (case send mail of
                              Delivered \<Rightarrow> success_message
                            | ErrorResult \<Rightarrow> success_message
                            | Rejects \<Rightarrow> ''Booking received but email notification failed. The service will still process your request.''
                            | Hangs \<Rightarrow> ''Booking received but email notification failed. The service will still process your request.''
                            | Throws \<Rightarrow> ''Service temporarily unavailable. Please try again later.''),
                         sent = [mail]\<rparr>)))
      else index_reply ''Unknown tool requested.'')"


text \<open>
  Requests and environments for evaluating the handlers: a POST of \<^verbatim>\<open>tools/call\<close> for
  \<^verbatim>\<open>request_cleaning\<close> from one client address, the same call on the stdio server, and the
  environment the test suite sets up.
\<close>

definition booking :: "jsval \<Rightarrow> jsval \<Rightarrow> jsval \<Rightarrow> tool_args" where
  "booking n p a = \<lparr>arg_name = n, arg_phone = p, arg_address = a\<rparr>"

definition tools_call :: "tool_args \<Rightarrow> http_request" where
  "tools_call args =
     \<lparr>http_method = ''POST'', x_forwarded_for = Some ''203.0.113.7'', x_real_ip = None,
      remoteAddress = None,
      body = Some \<lparr>rpc_method = JStr ''tools/call'', tool = JStr ''request_cleaning'',
                   arguments = args, json_length = 160\<rparr>\<rparr>"

definition call_tool :: "tool_args \<Rightarrow> index_request" where
  "call_tool args = \<lparr>params_name = JStr ''request_cleaning'', params_arguments = args\<rparr>"

definition test_env :: mcp_env where
  "test_env = \<lparr>RESEND_API_KEY = Some ''test_key'', FROM_EMAIL = Some ''test@example.com'',
                PARTNER_EMAILS = Some ''partner@example.com''\<rparr>"

definition index_test_env :: index_env where
  "index_test_env = \<lparr>index_FROM_EMAIL = ''test@example.com'',
                      index_PARTNER_EMAILS = ''partner@example.com''\<rparr>"



section \<open>Properties of validatePhone\<close>

lemma filter_isDigit_all: "list_all isDigit (filter isDigit p)"
  by (simp add: list_all_iff)

lemma charAt_0: "charAt s 0 = Some c \<longleftrightarrow> s \<noteq> [] \<and> hd s = c"
  by (cases s) (auto simp: charAt_def)

lemma len10_split:
  assumes "length d = 10"
  obtains a b c e f g h i j k where "d = [a, b, c, e, f, g, h, i, j, k]"
proof -
  from assms obtain a d1 where "d = a # d1" "length d1 = 9" by (cases d) auto
  moreover then obtain b d2 where "d1 = b # d2" "length d2 = 8" by (cases d1) auto
  moreover then obtain c d3 where "d2 = c # d3" "length d3 = 7" by (cases d2) auto
  moreover then obtain e d4 where "d3 = e # d4" "length d4 = 6" by (cases d3) auto
  moreover then obtain f d5 where "d4 = f # d5" "length d5 = 5" by (cases d4) auto
  moreover then obtain g d6 where "d5 = g # d6" "length d6 = 4" by (cases d5) auto
  moreover then obtain h d7 where "d6 = h # d7" "length d7 = 3" by (cases d6) auto
  moreover then obtain i d8 where "d7 = i # d8" "length d8 = 2" by (cases d7) auto
  moreover then obtain j d9 where "d8 = j # d9" "length d9 = 1" by (cases d8) auto
  moreover then obtain k where "d9 = [k]" by (cases d9) auto
  ultimately show ?thesis using that by blast
qed

lemma spec_digits_all: "list_all isDigit (spec_digits p)"
proof -
  have "set (tl (filter isDigit p)) \<subseteq> set (filter isDigit p)"
    by (cases "filter isDigit p") auto
  then show ?thesis
    by (auto simp: spec_digits_def Let_def list_all_iff)
qed

lemma cleaned1_eq_spec_digits:
  "(if length (filter isDigit p) = 11 \<and> charAt (filter isDigit p) 0 = Some (CHR ''1'')
    then sliceFrom (filter isDigit p) 1 else filter isDigit p) = spec_digits p"
  by (cases "filter isDigit p")
     (auto simp: spec_digits_def Let_def charAt_0 sliceFrom_def)

lemma validatePhone_unfold:
  "validatePhone (JStr p) =
     (if spec_phone_ok p
      then \<lparr>valid = True,
            cleaned = Some (take 3 (spec_digits p) @ ''-'' @ take 3 (drop 3 (spec_digits p))
                            @ ''-'' @ drop 6 (spec_digits p))\<rparr>
      else phone_invalid)"
proof -
  let ?d = "spec_digits p"
  have head: "length ?d = 10 \<Longrightarrow>
      (charAt ?d 0 = Some (CHR ''0'') \<or> charAt ?d 0 = Some (CHR ''1''))
      \<longleftrightarrow> \<not> (hd ?d \<noteq> CHR ''0'' \<and> hd ?d \<noteq> CHR ''1'')"
    by (cases ?d) (auto simp: charAt_0)
  have sl: "length ?d = 10 \<Longrightarrow>
      slice ?d 0 3 @ ''-'' @ slice ?d 3 6 @ ''-'' @ sliceFrom ?d 6
      = take 3 ?d @ ''-'' @ take 3 (drop 3 ?d) @ ''-'' @ drop 6 ?d"
    by (erule len10_split) (simp add: slice_def sliceFrom_def)
  show ?thesis
    unfolding validatePhone_def jsval.case Let_def cleaned1_eq_spec_digits
    using head sl by (auto simp: spec_phone_ok_def)
qed

lemma canonical_form:
  assumes "length d = 10" "list_all isDigit d"
  shows "spec_canonical (take 3 d @ ''-'' @ take 3 (drop 3 d) @ ''-'' @ drop 6 d)"
  using assms by (elim len10_split) (simp add: spec_canonical_def)

lemma canonical_digits:
  assumes "length d = 10" "list_all isDigit d"
  shows "filter isDigit (take 3 d @ ''-'' @ take 3 (drop 3 d) @ ''-'' @ drop 6 d) = d"
proof -
  have dash: "\<not> isDigit (CHR ''-'')" by (simp add: isDigit_def code_def)
  from assms show ?thesis
    by (elim len10_split) (simp add: dash)
qed

lemma trim_id: "s \<noteq> [] \<Longrightarrow> \<not> isSpace (hd s) \<Longrightarrow> \<not> isSpace (last s) \<Longrightarrow> trim s = s"
proof -
  assume a: "s \<noteq> []" "\<not> isSpace (hd s)" "\<not> isSpace (last s)"
  from a(1,2) have 1: "dropWhile isSpace s = s" by (cases s) auto
  from a(1,3) have 2: "dropWhile isSpace (rev s) = rev s"
    by (cases "rev s") (auto simp: hd_rev [symmetric])
  show ?thesis by (simp add: trim_def 1 2)
qed

lemma digit_not_space: "isDigit c \<Longrightarrow> \<not> isSpace c"
  by (auto simp: isDigit_def isSpace_def)

lemma digit_not_dash: "isDigit c \<Longrightarrow> c \<noteq> CHR ''-''"
  by (auto simp: isDigit_def code_def)

lemma canonical_no_minus:
  assumes "length d = 10" "list_all isDigit d"
  shows "\<not> startsWith (trim (take 3 d @ ''-'' @ take 3 (drop 3 d) @ ''-'' @ drop 6 d)) ''-''"
proof -
  from assms(1) obtain a b c e f g h i j k where d: "d = [a, b, c, e, f, g, h, i, j, k]"
    by (rule len10_split)
  let ?c = "take 3 d @ ''-'' @ take 3 (drop 3 d) @ ''-'' @ drop 6 d"
  from d assms(2) have "isDigit a" "isDigit k" by simp_all
  then have "trim ?c = ?c"
    by (intro trim_id) (simp_all add: d digit_not_space)
  then show ?thesis
    using \<open>isDigit a\<close> by (simp add: d startsWith_def digit_not_dash)
qed

text \<open>
  C5. For a string input, validatePhone strips the non-digits and drops a leading 1 of
  exactly 11 digits; the result is valid, with the canonical form DDD-DDD-DDDD built from
  the remaining digits, exactly when 10 digits remain, the first of them is neither 0
  nor 1 and the trimmed input does not begin with a minus sign; in every other case the
  result is \<open>{valid: false, cleaned: null}\<close>.
\<close>

theorem validatePhone_characterisation:
  "(valid (validatePhone (JStr p)) \<longleftrightarrow> spec_phone_ok p) \<and>
   (spec_phone_ok p \<longrightarrow>
      (\<exists>c. validatePhone (JStr p) = \<lparr>valid = True, cleaned = Some c\<rparr> \<and>
           spec_canonical c \<and> filter isDigit c = spec_digits p)) \<and>
   (\<not> spec_phone_ok p \<longrightarrow> validatePhone (JStr p) = \<lparr>valid = False, cleaned = None\<rparr>)"
proof -
  have a: "spec_phone_ok p \<Longrightarrow> length (spec_digits p) = 10"
    by (simp add: spec_phone_ok_def)
  show ?thesis
    using a canonical_form [OF _ spec_digits_all, of p]
      canonical_digits [OF _ spec_digits_all, of p]
    by (simp add: validatePhone_unfold phone_invalid_def)
qed

theorem validatePhone_characterisation_witness:
  "spec_phone_ok ''+1 (415) 555-1234'' \<and>
   (\<exists>c. validatePhone (JStr ''+1 (415) 555-1234'') = \<lparr>valid = True, cleaned = Some c\<rparr> \<and>
        spec_canonical c \<and> filter isDigit c = ''4155551234'') \<and>
   \<not> spec_phone_ok ''-415-555-1234'' \<and>
   validatePhone (JStr ''-415-555-1234'') = \<lparr>valid = False, cleaned = None\<rparr>"
proof -
  have a: "spec_phone_ok ''+1 (415) 555-1234''"
    by (simp add: spec_phone_ok_def spec_digits_def isDigit_def code_def startsWith_def
        trim_def isSpace_def)
  have b: "\<not> spec_phone_ok ''-415-555-1234''"
    by (simp add: spec_phone_ok_def spec_digits_def isDigit_def code_def startsWith_def
        trim_def isSpace_def)
  have c: "spec_digits ''+1 (415) 555-1234'' = ''4155551234''"
    by (simp add: spec_digits_def isDigit_def code_def)
  show ?thesis
    using validatePhone_characterisation [of "''+1 (415) 555-1234''"]
      validatePhone_characterisation [of "''-415-555-1234''"] a b c
    by simp
qed

text \<open>
  C8. validatePhone is a left inverse on its own canonical output: whenever an input is
  accepted with canonical form \<open>c\<close>, validating \<open>c\<close> again accepts it with the same
  canonical form; in particular \<open>415-555-1234\<close> validates to itself.
\<close>

theorem validatePhone_idempotent:
  "(validatePhone v = \<lparr>valid = True, cleaned = Some c\<rparr> \<longrightarrow>
      validatePhone (JStr c) = \<lparr>valid = True, cleaned = Some c\<rparr>) \<and>
   validatePhone (JStr ''415-555-1234'') = \<lparr>valid = True, cleaned = Some ''415-555-1234''\<rparr>"
proof (intro conjI impI)
  assume ok: "validatePhone v = \<lparr>valid = True, cleaned = Some c\<rparr>"
  then obtain p where v: "v = JStr p"
    by (cases v) (simp_all add: validatePhone_def phone_invalid_def)
  let ?d = "spec_digits p"
  from ok v have sp: "spec_phone_ok p"
    and c: "c = take 3 ?d @ ''-'' @ take 3 (drop 3 ?d) @ ''-'' @ drop 6 ?d"
    by (auto simp: validatePhone_unfold phone_invalid_def split: if_splits)
  from sp have len: "length ?d = 10" by (simp add: spec_phone_ok_def)
  have fd: "filter isDigit c = ?d"
    unfolding c by (rule canonical_digits [OF len spec_digits_all])
  then have sd: "spec_digits c = ?d"
    using len by (simp add: spec_digits_def)
  have "\<not> startsWith (trim c) ''-''"
    unfolding c by (rule canonical_no_minus [OF len spec_digits_all])
  with sp sd have "spec_phone_ok c"
    by (simp add: spec_phone_ok_def)
  then have "validatePhone (JStr c) =
      \<lparr>valid = True,
       cleaned = Some (take 3 (spec_digits c) @ ''-'' @ take 3 (drop 3 (spec_digits c))
                       @ ''-'' @ drop 6 (spec_digits c))\<rparr>"
    by (simp only: validatePhone_unfold if_True)
  then show "validatePhone (JStr c) = \<lparr>valid = True, cleaned = Some c\<rparr>"
    unfolding sd using c by simp
next
  show "validatePhone (JStr ''415-555-1234'') = \<lparr>valid = True, cleaned = Some ''415-555-1234''\<rparr>"
    by (simp add: validatePhone_def isDigit_def code_def charAt_def sliceFrom_def slice_def
        startsWith_def trim_def isSpace_def)
qed

theorem validatePhone_idempotent_witness:
  "validatePhone (JStr ''+1 (415) 555-1234'') = \<lparr>valid = True, cleaned = Some ''415-555-1234''\<rparr> \<and>
   validatePhone (JStr ''415-555-1234'') = \<lparr>valid = True, cleaned = Some ''415-555-1234''\<rparr>"
  using validatePhone_idempotent [of "JStr ''+1 (415) 555-1234''" "''415-555-1234''"]
  by (simp add: validatePhone_def isDigit_def code_def charAt_def sliceFrom_def slice_def
        startsWith_def trim_def isSpace_def)


section \<open>Properties of the RateLimiter\<close>


lemma exec_params [simp]: "limit (exec e rl) = limit rl" "windowMs (exec e rl) = windowMs rl"
  by (cases e; simp add: checkLimit_def cleanup_def reset_def Let_def)+

lemma run_params [simp]: "limit (run es rl) = limit rl" "windowMs (run es rl) = windowMs rl"
  by (induction es arbitrary: rl) simp_all

lemma userRequests_cleanup:
  "userRequests (cleanup c rl) k = recent rl c (userRequests rl k)"
  by (simp add: userRequests_def cleanup_def recent_def split: option.splits)

lemma recent_window: "windowMs a = windowMs b \<Longrightarrow> recent a = recent b"
  by (intro ext) (simp add: recent_def)

lemma recent_recent: "c \<le> now \<Longrightarrow> recent rl now (recent rl c ts) = recent rl now ts"
  by (induction ts) (auto simp: recent_def)

lemma recent_Nil [simp]: "recent rl now [] = []"
  by (simp add: recent_def)

lemma recent_append: "recent rl now (xs @ ys) = recent rl now xs @ recent rl now ys"
  by (simp add: recent_def)

lemma recent_exec:
  assumes "e \<noteq> Reset k" "list_all (\<lambda>t. t \<le> now) (clock_reads e)"
  shows "recent rl now (userRequests (exec e rl) k)
         = recent rl now (userRequests rl k) @ recent rl now (admitted_now k e rl)"
proof (cases e)
  case (CheckLimit k' n sweep c)
  with assms(2) have n: "n \<le> now" and c: "sweep \<Longrightarrow> c \<le> now"
    by (auto split: if_splits)
  show ?thesis
  proof (cases "fst (checkLimit k' n sweep c rl)")
    case False
    then show ?thesis
      by (simp add: CheckLimit checkLimit_def Let_def recent_def split: if_splits)
  next
    case True
    let ?rl' = "rl\<lparr>requests := (requests rl)(k' \<mapsto> recent rl n (userRequests rl k') @ [n])\<rparr>"
    from True have ex: "exec e rl = (if sweep then cleanup c ?rl' else ?rl')"
      by (simp add: CheckLimit checkLimit_def Let_def split: if_splits)
    have ur: "userRequests ?rl' k =
        (if k' = k then recent rl n (userRequests rl k) @ [n] else userRequests rl k)"
      by (simp add: userRequests_def)
    have w: "windowMs ?rl' = windowMs rl" by simp
    have r1: "recent rl now (userRequests ?rl' k)
          = recent rl now (userRequests rl k) @ recent rl now (admitted_now k e rl)"
      using True n by (simp add: ur CheckLimit recent_append recent_recent)
    show ?thesis
    proof (cases sweep)
      case False
      with ex r1 show ?thesis by simp
    next
      case True
      then have "recent rl now (userRequests (exec e rl) k)
          = recent rl now (recent ?rl' c (userRequests ?rl' k))"
        by (simp add: ex userRequests_cleanup)
      also have "\<dots> = recent rl now (userRequests ?rl' k)"
        using c [OF True] by (simp add: recent_window [OF w] recent_recent)
      finally show ?thesis using r1 by simp
    qed
  qed
next
  case (Cleanup c)
  with assms(2) have "c \<le> now" by simp
  then show ?thesis
    by (simp add: Cleanup userRequests_cleanup recent_recent)
next
  case (Reset k')
  with assms(1) have "k' \<noteq> k" by simp
  then show ?thesis
    by (simp add: Reset reset_def userRequests_def recent_def)
qed


lemma recent_run:
  "quiet_until k now es \<Longrightarrow>
   recent rl now (userRequests (run es rl) k)
   = recent rl now (userRequests rl k) @ recent rl now (admitted k es rl)"
proof (induction es arbitrary: rl)
  case Nil
  then show ?case by (simp add: recent_def)
next
  case (Cons e es)
  then have e: "e \<noteq> Reset k" "list_all (\<lambda>t. t \<le> now) (clock_reads e)"
    and es: "quiet_until k now es"
    by (simp_all add: quiet_until_def)
  have w: "windowMs (exec e rl) = windowMs rl" by simp
  have "recent rl now (userRequests (run (e # es) rl) k)
      = recent (exec e rl) now (userRequests (run es (exec e rl)) k)"
    by (simp add: recent_window [OF w])
  also have "\<dots> = recent (exec e rl) now (userRequests (exec e rl) k)
      @ recent (exec e rl) now (admitted k es (exec e rl))"
    by (rule Cons.IH [OF es])
  also have "\<dots> = recent rl now (userRequests (exec e rl) k)
      @ recent rl now (admitted k es (exec e rl))"
    by (simp add: recent_window [OF w])
  finally show ?case
    by (simp add: recent_exec [OF e] recent_append)
qed

lemma bounded_new: "bounded (new_RateLimiter l w)"
  by (simp add: bounded_def new_RateLimiter_def)

lemma length_recent_le: "length (recent rl now ts) \<le> length ts"
  by (simp add: recent_def)

lemma bounded_cleanup: "bounded rl \<Longrightarrow> bounded (cleanup c rl)"
proof -
  assume b: "bounded rl"
  have "ts' \<noteq> [] \<and> int (length ts') \<le> limit (cleanup c rl)"
    if "requests (cleanup c rl) k = Some ts'" for k ts'
  proof -
    from that obtain ts where ts: "requests rl k = Some ts" "ts' = recent rl c ts" "ts' \<noteq> []"
      by (auto simp: cleanup_def split: option.splits if_splits)
    from b ts(1) have "int (length ts) \<le> limit rl" by (auto simp: bounded_def)
    with length_recent_le [of rl c ts] have "int (length ts') \<le> limit rl"
      by (simp add: ts(2))
    with ts(3) show ?thesis by (simp add: cleanup_def)
  qed
  then show ?thesis by (simp add: bounded_def)
qed

lemma bounded_exec: "bounded rl \<Longrightarrow> bounded (exec e rl)"
proof (cases e)
  case (CheckLimit k n sweep c)
  assume b: "bounded rl"
  let ?rl' = "rl\<lparr>requests := (requests rl)(k \<mapsto> recent rl n (userRequests rl k) @ [n])\<rparr>"
  show ?thesis
  proof (cases "limit rl \<le> int (length (recent rl n (userRequests rl k)))")
    case True
    with b show ?thesis by (simp add: CheckLimit checkLimit_def)
  next
    case False
    with b have "bounded ?rl'" by (auto simp: bounded_def)
    with False show ?thesis
      by (simp add: CheckLimit checkLimit_def Let_def bounded_cleanup)
  qed
next
  case (Cleanup c)
  then show "bounded rl \<Longrightarrow> bounded (exec e rl)" by (simp add: bounded_cleanup)
next
  case (Reset k)
  then show "bounded rl \<Longrightarrow> bounded (exec e rl)" by (auto simp: bounded_def reset_def)
qed

lemma bounded_run: "bounded rl \<Longrightarrow> bounded (run es rl)"
  by (induction es arbitrary: rl) (simp_all add: bounded_exec)

lemma expired_shrinks:
  assumes "t \<in> set ts" "windowMs rl \<le> now - t"
  shows "length (recent rl now ts) < length ts"
  unfolding recent_def using assms by (intro length_filter_less [of t]) simp_all

text \<open>
  C2. For a limiter constructed with capacity \<open>l\<close> and window \<open>w\<close> and any history of calls
  on it: if the history has no reset of the identifier, reads no clock value later than
  \<open>now\<close>, and at least \<open>l\<close> of its \<open>checkLimit\<close> calls for the identifier were admitted at
  times within \<open>w\<close> of \<open>now\<close>, then \<open>checkLimit\<close> at \<open>now\<close> returns false and leaves the
  state as it is; and once the oldest timestamp recorded for the identifier is at least
  \<open>w\<close> older than \<open>now\<close>, \<open>checkLimit\<close> at \<open>now\<close> returns true.
\<close>

theorem rate_limiter_window:
  fixes k :: 'k and es :: "'k event list"
  shows "(quiet_until k now es \<and>
          l \<le> int (length (filter (\<lambda>t. now - t < w) (admitted k es (new_RateLimiter l w))))
          \<longrightarrow> checkLimit k now sweep sweepNow (run es (new_RateLimiter l w)) = (False, run es (new_RateLimiter l w))) \<and>
         (requests (run es (new_RateLimiter l w)) k = Some ts \<and> t \<in> set ts \<and> (\<forall>u\<in>set ts. t \<le> u) \<and> w \<le> now - t
          \<longrightarrow> fst (checkLimit k now sweep sweepNow (run es (new_RateLimiter l w))))"
proof -
  define rl where "rl = run es (new_RateLimiter l w)"
  have "(quiet_until k now es \<and>
          l \<le> int (length (filter (\<lambda>t. now - t < w) (admitted k es (new_RateLimiter l w))))
          \<longrightarrow> checkLimit k now sweep sweepNow rl = (False, rl)) \<and>
         (requests rl k = Some ts \<and> t \<in> set ts \<and> (\<forall>u\<in>set ts. t \<le> u) \<and> w \<le> now - t
          \<longrightarrow> fst (checkLimit k now sweep sweepNow rl))"
  proof (intro conjI impI)
    let ?new = "new_RateLimiter l w :: 'k RateLimiter"
    have p: "limit rl = l" "windowMs rl = w" "windowMs ?new = w"
      by (simp_all add: rl_def) (simp_all add: new_RateLimiter_def)
    {
      assume a: "quiet_until k now es \<and>
          l \<le> int (length (filter (\<lambda>t. now - t < w) (admitted k es ?new)))"
      have "recent rl now (userRequests rl k)
          = recent ?new now (userRequests (run es ?new) k)"
        by (simp add: rl_def recent_window [of "run es ?new" ?new])
      also have "\<dots> = recent ?new now (userRequests ?new k) @ recent ?new now (admitted k es ?new)"
        using a by (simp add: recent_run)
      finally have "length (filter (\<lambda>t. now - t < w) (admitted k es ?new))
          \<le> length (recent rl now (userRequests rl k))"
        by (simp add: recent_def p)
      with a have "limit rl \<le> int (length (recent rl now (userRequests rl k)))"
        by (simp add: p)
      then show "checkLimit k now sweep sweepNow rl = (False, rl)"
        by (simp add: checkLimit_def)
    }
    {
      assume a: "requests rl k = Some ts \<and> t \<in> set ts \<and> (\<forall>u\<in>set ts. t \<le> u) \<and> w \<le> now - t"
      have "bounded rl" unfolding rl_def by (rule bounded_run [OF bounded_new])
      with a have "int (length ts) \<le> limit rl" by (auto simp: bounded_def)
      moreover from a have "length (recent rl now ts) < length ts"
        by (intro expired_shrinks [of t]) (simp_all add: p)
      ultimately have "\<not> limit rl \<le> int (length (recent rl now (userRequests rl k)))"
        using a by (simp add: userRequests_def)
      then show "fst (checkLimit k now sweep sweepNow rl)"
        by (simp add: checkLimit_def Let_def)
    }
  qed
  then show ?thesis unfolding rl_def .
qed


lemmas rl_eval = checkLimit_def cleanup_def reset_def getRemaining_def recent_def
  userRequests_def new_RateLimiter_def quiet_until_def Let_def

theorem rate_limiter_window_witness:
  "quiet_until ''user1'' 500 [CheckLimit ''user1'' 0 False 0, CheckLimit ''user1'' 10 True 10] \<and>
   2 \<le> int (length (filter (\<lambda>t. 500 - t < 1000)
        (admitted ''user1'' [CheckLimit ''user1'' 0 False 0, CheckLimit ''user1'' 10 True 10]
           (new_RateLimiter 2 1000)))) \<and>
   fst (checkLimit ''user1'' 500 False 500
     (run [CheckLimit ''user1'' 0 False 0, CheckLimit ''user1'' 10 True 10] (new_RateLimiter 2 1000)))
     = False \<and>
   requests (run [CheckLimit ''user1'' 0 False 0, CheckLimit ''user1'' 10 True 10]
     (new_RateLimiter 2 1000)) ''user1'' = Some [0, 10] \<and>
   fst (checkLimit ''user1'' 1000 False 1000
     (run [CheckLimit ''user1'' 0 False 0, CheckLimit ''user1'' 10 True 10] (new_RateLimiter 2 1000)))"
proof -
  let ?es = "[CheckLimit ''user1'' 0 False 0, CheckLimit ''user1'' 10 True 10]"
  have q: "quiet_until ''user1'' 500 ?es"
    by (simp add: quiet_until_def)
  have a: "admitted ''user1'' ?es (new_RateLimiter 2 1000) = [0, 10]"
    by (simp add: rl_eval)
  have r: "requests (run ?es (new_RateLimiter 2 1000)) ''user1'' = Some [0, 10]"
    by (simp add: rl_eval)
  have h: "2 \<le> int (length (filter (\<lambda>t. 500 - t < 1000)
      (admitted ''user1'' ?es (new_RateLimiter 2 1000))))"
    unfolding a by simp
  have m: "0 \<in> set [0, 10::int] \<and> (\<forall>u\<in>set [0, 10::int]. 0 \<le> u) \<and> (1000::int) \<le> 1000 - 0"
    by simp
  from rate_limiter_window [of "''user1''" 500 ?es 2 1000 False 500 "[0, 10]" 0] q h
  have "checkLimit ''user1'' 500 False 500 (run ?es (new_RateLimiter 2 1000))
      = (False, run ?es (new_RateLimiter 2 1000))"
    by blast
  then have 1: "fst (checkLimit ''user1'' 500 False 500 (run ?es (new_RateLimiter 2 1000))) = False"
    by (simp only: fst_conv)
  from rate_limiter_window [of "''user1''" 1000 ?es 2 1000 False 1000 "[0, 10]" 0] r m
  have 2: "fst (checkLimit ''user1'' 1000 False 1000 (run ?es (new_RateLimiter 2 1000)))"
    by blast
  show ?thesis using q h r 1 2 by blast
qed

text \<open>
  C10, as amended. For every limiter state, identifier and time: \<open>checkLimit\<close> returns true
  exactly when \<open>getRemaining\<close> at the same time is positive; \<open>getRemaining\<close> is never
  negative; and, when the window is positive, an admitted call lowers \<open>getRemaining\<close> read
  at the same time by exactly one.
\<close>

theorem remaining_agrees:
  "(fst (checkLimit k now sweep sweepNow rl) \<longleftrightarrow> 0 < getRemaining k now rl) \<and>
   0 \<le> getRemaining k now rl \<and>
   (0 < windowMs rl \<and> fst (checkLimit k now sweep now rl) \<longrightarrow>
      getRemaining k now (snd (checkLimit k now sweep now rl)) = getRemaining k now rl - 1)"
proof (intro conjI impI)
  let ?r = "recent rl now (userRequests rl k)"
  show "fst (checkLimit k now sweep sweepNow rl) \<longleftrightarrow> 0 < getRemaining k now rl"
    by (simp add: checkLimit_def getRemaining_def Let_def)
  show "0 \<le> getRemaining k now rl"
    by (simp add: getRemaining_def)
  assume a: "0 < windowMs rl \<and> fst (checkLimit k now sweep now rl)"
  let ?rl' = "rl\<lparr>requests := (requests rl)(k \<mapsto> ?r @ [now])\<rparr>"
  from a have lt: "int (length ?r) < limit rl"
    by (simp add: checkLimit_def Let_def split: if_splits)
  then have s: "snd (checkLimit k now sweep now rl) = (if sweep then cleanup now ?rl' else ?rl')"
    by (simp add: checkLimit_def Let_def)
  have w: "windowMs ?rl' = windowMs rl" by simp
  have u: "userRequests ?rl' k = ?r @ [now]" by (simp add: userRequests_def)
  let ?rl2 = "snd (checkLimit k now sweep now rl)"
  have p2: "limit ?rl2 = limit rl" "windowMs ?rl2 = windowMs rl"
    using exec_params [of "CheckLimit k now sweep now" rl] by simp_all
  have "userRequests ?rl2 k = (if sweep then recent ?rl' now (?r @ [now]) else ?r @ [now])"
    by (simp add: s userRequests_cleanup u)
  then have "recent rl now (userRequests ?rl2 k) = recent rl now (?r @ [now])"
    by (simp add: recent_window [OF w] recent_recent)
  also have "\<dots> = ?r @ [now]"
    using a by (simp add: recent_append recent_recent) (simp add: recent_def)
  finally have "recent rl now (userRequests ?rl2 k) = ?r @ [now]" .
  then have "getRemaining k now ?rl2 = max 0 (limit rl - int (length (?r @ [now])))"
    unfolding getRemaining_def p2 by (simp only: recent_window [OF p2(2)])
  with lt show "getRemaining k now (snd (checkLimit k now sweep now rl)) = getRemaining k now rl - 1"
    by (simp add: getRemaining_def)
qed

theorem remaining_agrees_witness:
  "0 < windowMs (new_RateLimiter 3 1000 :: string RateLimiter) \<and>
   fst (checkLimit ''user1'' 5 True 5 (new_RateLimiter 3 1000)) \<and>
   getRemaining ''user1'' 5 (new_RateLimiter 3 1000) = 3 \<and>
   getRemaining ''user1'' 5 (snd (checkLimit ''user1'' 5 True 5 (new_RateLimiter 3 1000))) = 2"
proof -
  have w: "0 < windowMs (new_RateLimiter 3 1000 :: string RateLimiter)"
    by (simp add: new_RateLimiter_def)
  have g: "getRemaining ''user1'' 5 (new_RateLimiter 3 1000) = 3"
    by (simp add: rl_eval)
  from remaining_agrees [of "''user1''" 5 True 5 "new_RateLimiter 3 1000"] w g
  show ?thesis by simp
qed

text \<open>
  C10 as stated fails for a window of zero: the admitted call's own timestamp is not
  within the window, and \<open>getRemaining\<close> stays at 3.
\<close>

theorem remaining_not_decreased_counterexample:
  "fst (checkLimit ''user1'' 1000 False 1000 (new_RateLimiter 3 0)) \<and>
   getRemaining ''user1'' 1000 (new_RateLimiter 3 0) = 3 \<and>
   getRemaining ''user1'' 1000 (snd (checkLimit ''user1'' 1000 False 1000 (new_RateLimiter 3 0))) = 3"
  by (simp add: rl_eval)


section \<open>Properties of sanitizeString\<close>

lemma set_replaceAll: "set (replaceAll m s) \<subseteq> set s"
proof (induction m s rule: replaceAll.induct)
  case (1 m)
  show ?case by simp
next
  case (2 m c cs)
  show ?case
  proof (cases "m (c # cs)")
    case None
    with 2 show ?thesis by auto
  next
    case (Some n)
    show ?thesis
    proof (cases n)
      case 0
      with Some 2 show ?thesis by auto
    next
      case (Suc k)
      with Some 2 have "set (replaceAll m (drop k cs)) \<subseteq> set (drop k cs)" by simp
      also have "\<dots> \<subseteq> set cs" by (rule set_drop_subset)
      finally show ?thesis using Some Suc by auto
    qed
  qed
qed

lemma set_trim: "set (trim s) \<subseteq> set s"
proof -
  have "set (dropWhile isSpace (rev (dropWhile isSpace s))) \<subseteq> set (rev (dropWhile isSpace s))"
    by (rule set_dropWhileD [THEN subsetI])
  also have "\<dots> \<subseteq> set s"
    using set_dropWhileD [of _ isSpace s] by auto
  finally show ?thesis by (simp add: trim_def)
qed

lemma set_slice: "set (slice s a b) \<subseteq> set s"
proof -
  have "set (drop a (take e s)) \<subseteq> set s" for e
    using set_drop_subset [of a "take e s"] set_take_subset [of e s] by blast
  then show ?thesis by (simp add: slice_def Let_def)
qed

lemma length_slice0: "0 \<le> m \<Longrightarrow> int (length (slice s 0 m)) \<le> m"
  by (simp add: slice_def)

text \<open>What is left of a string after the six replacements and the trimming.\<close>

lemma set_pipeline:
  "set (trim (replaceAll h (replaceAll j (filter P (replaceAll t s))))) \<subseteq> {c \<in> set (replaceAll t s). P c}"
proof -
  have "set (trim (replaceAll h (replaceAll j (filter P (replaceAll t s)))))
      \<subseteq> set (replaceAll h (replaceAll j (filter P (replaceAll t s))))"
    by (rule set_trim)
  also have "\<dots> \<subseteq> set (replaceAll j (filter P (replaceAll t s)))"
    by (rule set_replaceAll)
  also have "\<dots> \<subseteq> set (filter P (replaceAll t s))"
    by (rule set_replaceAll)
  finally show ?thesis by auto
qed

text \<open>
  C3. For every input value and every \<open>maxLength\<close>, the result of sanitizeString contains
  none of the characters \<open><\<close>, \<open>>\<close>, double quote and single quote, and is the empty string
  when the input is not a string; \<open>maxLength\<close> being a length (zero or more; 200 by default,
  100 and 200 in the handlers), the result is at most \<open>maxLength\<close> characters long.
\<close>

theorem sanitizeString_safe:
  "(\<forall>c\<in>set (sanitizeString v m). c \<notin> {CHR ''<'', CHR ''>'', CHR 0x22, CHR 0x27}) \<and>
   (0 \<le> m \<longrightarrow> int (length (sanitizeString v m)) \<le> m) \<and>
   ((\<forall>s. v \<noteq> JStr s) \<longrightarrow> sanitizeString v m = [])"
proof (intro conjI ballI impI)
  fix c assume c: "c \<in> set (sanitizeString v m)"
  show "c \<notin> {CHR ''<'', CHR ''>'', CHR 0x22, CHR 0x27}"
  proof (cases v)
    case (JStr s)
    with c set_slice have "c \<in> set (trim
              (replaceAll match_handler
                (replaceAll (match_literal_ci ''javascript:'')
                  (filter (\<lambda>c. \<not> isSpecial c)
                    (replaceAll match_tag
                      (replaceAll (match_element ''style'')
                        (replaceAll (match_element ''script'') s)))))))"
      unfolding sanitizeString_def by (simp only: jsval.case) blast
    with set_pipeline have "\<not> isSpecial c" by blast
    then show ?thesis by (simp add: isSpecial_def)
  qed (use c in \<open>simp_all add: sanitizeString_def\<close>)
next
  assume "0 \<le> m"
  then show "int (length (sanitizeString v m)) \<le> m"
    by (cases v) (simp_all add: sanitizeString_def length_slice0)
next
  assume "\<forall>s. v \<noteq> JStr s"
  then show "sanitizeString v m = []"
    by (cases v) (simp_all add: sanitizeString_def)
qed

theorem sanitizeString_safe_witness:
  "(0::int) \<le> 8 \<and>
   sanitizeString (JStr (''<b>Hi</b> <script>x</script>O'Neil > onclick=1 '')) 8 = ''Hi ONeil'' \<and>
   set (sanitizeString (JStr (''<b>Hi</b> <script>x</script>O'Neil > onclick=1 '')) 8)
     \<inter> {CHR ''<'', CHR ''>'', CHR 0x22, CHR 0x27} = {} \<and>
   int (length (sanitizeString (JStr (''<b>Hi</b> <script>x</script>O'Neil > onclick=1 '')) 8)) \<le> 8 \<and>
   (\<forall>s. JNum 123 \<noteq> JStr s) \<and> sanitizeString (JNum 123) 8 = []"
proof -
  have e: "sanitizeString (JStr (''<b>Hi</b> <script>x</script>O'Neil > onclick=1 '')) 8 = ''Hi ONeil''"
    by code_simp
  have n: "\<forall>s. JNum 123 \<noteq> JStr s" by simp
  from sanitizeString_safe [of "JStr (''<b>Hi</b> <script>x</script>O'Neil > onclick=1 '')" 8]
    sanitizeString_safe [of "JNum 123" 8] e n
  show ?thesis by simp
qed



section \<open>Properties of validateName\<close>

lemma startsWith_iff: "startsWith s p \<longleftrightarrow> (\<exists>post. s = p @ post)"
proof
  assume "startsWith s p"
  then have "s = p @ drop (length p) s"
    by (metis append_take_drop_id startsWith_def)
  then show "\<exists>post. s = p @ post" ..
next
  assume "\<exists>post. s = p @ post"
  then show "startsWith s p" by (auto simp: startsWith_def)
qed

lemma str_includes_iff: "str_includes t sub \<longleftrightarrow> contains t sub"
proof (induction t)
  case Nil
  show ?case by (auto simp: contains_def)
next
  case (Cons c cs)
  have "contains (c # cs) sub \<longleftrightarrow> (\<exists>post. c # cs = sub @ post) \<or> contains cs sub"
  proof
    assume "contains (c # cs) sub"
    then obtain pre post where e: "c # cs = pre @ sub @ post" by (auto simp: contains_def)
    show "(\<exists>post. c # cs = sub @ post) \<or> contains cs sub"
    proof (cases pre)
      case Nil
      with e show ?thesis by auto
    next
      case (Cons a pre')
      with e have "cs = pre' @ sub @ post" by simp
      then show ?thesis by (auto simp: contains_def)
    qed
  next
    assume "(\<exists>post. c # cs = sub @ post) \<or> contains cs sub"
    then show "contains (c # cs) sub"
    proof
      assume "\<exists>post. c # cs = sub @ post"
      then obtain post where "c # cs = [] @ sub @ post" by auto
      then show ?thesis unfolding contains_def by blast
    next
      assume "contains cs sub"
      then obtain pre post where "cs = pre @ sub @ post" by (auto simp: contains_def)
      then have "c # cs = (c # pre) @ sub @ post" by simp
      then show ?thesis unfolding contains_def by blast
    qed
  qed
  with Cons show ?case by (simp add: startsWith_iff)
qed

lemma str_includes_lower_iff: "str_includes (toLowerCase t) sub \<longleftrightarrow> contains_ci t sub"
proof -
  have "contains (map lowerChar t) sub \<longleftrightarrow> (\<exists>pre w post. t = pre @ w @ post \<and> map lowerChar w = sub)"
  proof
    assume "contains (map lowerChar t) sub"
    then obtain pre post where "map lowerChar t = pre @ sub @ post"
      by (auto simp: contains_def)
    then obtain us vs where 1: "t = us @ vs" "sub @ post = map lowerChar vs"
      by (auto simp: map_eq_append_conv)
    then obtain ws xs where 2: "vs = ws @ xs" "map lowerChar ws = sub"
      by (auto simp: append_eq_map_conv)
    with 1 have "t = us @ ws @ xs \<and> map lowerChar ws = sub" by simp
    then show "\<exists>pre w post. t = pre @ w @ post \<and> map lowerChar w = sub" by blast
  next
    assume "\<exists>pre w post. t = pre @ w @ post \<and> map lowerChar w = sub"
    then obtain pre w post where "t = pre @ w @ post" "map lowerChar w = sub" by blast
    then have "map lowerChar t = map lowerChar pre @ sub @ map lowerChar post" by simp
    then show "contains (map lowerChar t) sub" unfolding contains_def by blast
  qed
  then show ?thesis by (simp add: str_includes_iff toLowerCase_def contains_ci_def)
qed

lemma validateName_valid_iff:
  "name_valid (validateName (JStr s)) \<longleftrightarrow> spec_name_ok s"
proof -
  have chars: "list_all isNameChar (trim s)
      \<longleftrightarrow> (\<forall>c\<in>set (trim s). isLetter c \<or> isSpace c \<or> c = CHR ''-'' \<or> c = CHR 0x27)"
    by (simp add: list_all_iff isNameChar_def)
  have letter: "list_ex isLetter (trim s) \<longleftrightarrow> (\<exists>c\<in>set (trim s). isLetter c)"
    by (simp add: list_ex_iff)
  have ne: "2 \<le> length (trim s) \<Longrightarrow> trim s \<noteq> []" by auto
  show ?thesis
    unfolding validateName_def jsval.case Let_def spec_name_ok_def chars letter
      str_includes_lower_iff
    unfolding str_includes_iff
    using ne by (auto simp: not_less not_le)
qed

text \<open>
  C4. validateName is valid exactly for the strings whose trimmed form has between 2 and
  100 characters, consists only of letters, spaces, hyphens and apostrophes, has at least
  one letter, contains none of \<open>--\<close>, \<open>/*\<close>, \<open>*/\<close>, \<open>;\<close>, and does not contain the words \<open>drop\<close>,
  \<open>delete\<close> or \<open>union\<close> in any letter case; every other value, a string or not, is
  invalid. It rejects the empty string, \<open>J\<close>, a name of 101 characters and
  \<open>Robert; DROP TABLE\<close>, and accepts \<open>O'Connor\<close> and \<open>Mary-Jane Smith\<close>.
\<close>

theorem validateName_characterisation:
  "(name_valid (validateName v) \<longleftrightarrow> (\<exists>s. v = JStr s \<and> spec_name_ok s)) \<and>
   \<not> name_valid (validateName (JStr '''')) \<and>
   \<not> name_valid (validateName (JStr ''J'')) \<and>
   \<not> name_valid (validateName (JStr (replicate 101 (CHR ''a'')))) \<and>
   \<not> name_valid (validateName (JStr ''Robert; DROP TABLE'')) \<and>
   name_valid (validateName (JStr ''O'Connor'')) \<and>
   name_valid (validateName (JStr ''Mary-Jane Smith''))"
proof (intro conjI)
  show "name_valid (validateName v) \<longleftrightarrow> (\<exists>s. v = JStr s \<and> spec_name_ok s)"
    by (cases v) (simp_all add: validateName_valid_iff, simp_all add: validateName_def)
  show "\<not> name_valid (validateName (JStr ''''))" by code_simp
  show "\<not> name_valid (validateName (JStr ''J''))" by code_simp
  show "\<not> name_valid (validateName (JStr (replicate 101 (CHR ''a''))))" by code_simp
  show "\<not> name_valid (validateName (JStr ''Robert; DROP TABLE''))" by code_simp
  show "name_valid (validateName (JStr ''O'Connor''))" by code_simp
  show "name_valid (validateName (JStr ''Mary-Jane Smith''))" by code_simp
qed

theorem validateName_characterisation_witness:
  "name_valid (validateName (JStr ''  Jean-Claude Van Damme '')) \<and>
   spec_name_ok ''  Jean-Claude Van Damme '' \<and>
   \<not> name_valid (validateName (JStr ''Andropov'')) \<and>
   \<not> spec_name_ok ''Andropov''"
proof -
  have a: "name_valid (validateName (JStr ''  Jean-Claude Van Damme ''))" by code_simp
  have b: "\<not> name_valid (validateName (JStr ''Andropov''))" by code_simp
  from validateName_characterisation [of "JStr ''  Jean-Claude Van Damme ''"]
    validateName_characterisation [of "JStr ''Andropov''"] a b
  show ?thesis by simp
qed



section \<open>Properties of validateSFAddress\<close>

lemma match_seq_lits:
  "match_seq (map Lit w) prev s =
     (if startsWith s w then Some (if w = [] then prev else Some (last w), drop (length w) s)
      else None)"
proof (induction w arbitrary: prev s)
  case Nil
  show ?case by (simp add: startsWith_def)
next
  case (Cons a w)
  show ?case
  proof (cases s)
    case Nil
    then show ?thesis by (simp add: startsWith_def)
  next
    case (Cons c cs)
    then show ?thesis
      using Cons.IH [of "Some c" cs] by (auto simp: startsWith_def)
  qed
qed

lemma boundary_word_head:
  "w \<noteq> [] \<Longrightarrow> isWord (hd w) \<Longrightarrow> boundary prev (w @ post) \<longleftrightarrow> \<not> wordOpt prev"
  by (cases w) (auto simp: boundary_def nextChar_def wordOpt_def)

lemma boundary_word_last:
  "isWord c \<Longrightarrow> boundary (Some c) post \<longleftrightarrow> post = [] \<or> \<not> isWord (hd post)"
  by (cases post) (auto simp: boundary_def nextChar_def wordOpt_def)

lemma match_word_at_lits:
  assumes "w \<noteq> []" "isWord (hd w)" "isWord (last w)"
  shows "match_word_at (map Lit w) prev s \<longleftrightarrow>
         \<not> wordOpt prev \<and> (\<exists>post. s = w @ post \<and> (post = [] \<or> \<not> isWord (hd post)))"
proof (cases "startsWith s w")
  case False
  then show ?thesis
    by (auto simp: match_word_at_def match_seq_lits startsWith_iff)
next
  case True
  then obtain post where s: "s = w @ post" by (auto simp: startsWith_iff)
  from True assms have "match_word_at (map Lit w) prev s \<longleftrightarrow>
      boundary prev s \<and> boundary (Some (last w)) (drop (length w) s)"
    by (simp add: match_word_at_def match_seq_lits)
  also have "\<dots> \<longleftrightarrow> \<not> wordOpt prev \<and> (post = [] \<or> \<not> isWord (hd post))"
    using assms by (simp add: s boundary_word_head boundary_word_last)
  finally show ?thesis by (auto simp: s)
qed

lemma test_word_lits:
  assumes "w \<noteq> []" "isWord (hd w)" "isWord (last w)"
  shows "test_word (map Lit w) prev t \<longleftrightarrow>
         (\<exists>pre post. t = pre @ w @ post \<and>
            (if pre = [] then \<not> wordOpt prev else \<not> isWord (last pre)) \<and>
            (post = [] \<or> \<not> isWord (hd post)))"
proof (induction t arbitrary: prev)
  case Nil
  show ?case using assms(1) by (simp add: match_word_at_lits [OF assms])
next
  case (Cons c cs)
  let ?R = "\<lambda>p x. (\<exists>pre post. x = pre @ w @ post \<and>
            (if pre = [] then \<not> wordOpt p else \<not> isWord (last pre)) \<and>
            (post = [] \<or> \<not> isWord (hd post)))"
  have "?R prev (c # cs) \<longleftrightarrow>
      (\<not> wordOpt prev \<and> (\<exists>post. c # cs = w @ post \<and> (post = [] \<or> \<not> isWord (hd post))))
      \<or> ?R (Some c) cs"
  proof
    assume "?R prev (c # cs)"
    then obtain pre post where e: "c # cs = pre @ w @ post"
      and l: "if pre = [] then \<not> wordOpt prev else \<not> isWord (last pre)"
      and r: "post = [] \<or> \<not> isWord (hd post)" by blast
    show "(\<not> wordOpt prev \<and> (\<exists>post. c # cs = w @ post \<and> (post = [] \<or> \<not> isWord (hd post))))
      \<or> ?R (Some c) cs"
    proof (cases pre)
      case Nil
      with e l r show ?thesis by auto
    next
      case (Cons a pre')
      with e have 1: "a = c" "cs = pre' @ w @ post" by simp_all
      from l Cons 1 have "if pre' = [] then \<not> wordOpt (Some c) else \<not> isWord (last pre')"
        by (auto simp: wordOpt_def)
      with 1 r have "?R (Some c) cs" by blast
      then show ?thesis ..
    qed
  next
    assume "(\<not> wordOpt prev \<and> (\<exists>post. c # cs = w @ post \<and> (post = [] \<or> \<not> isWord (hd post))))
      \<or> ?R (Some c) cs"
    then show "?R prev (c # cs)"
    proof
      assume "\<not> wordOpt prev \<and> (\<exists>post. c # cs = w @ post \<and> (post = [] \<or> \<not> isWord (hd post)))"
      then obtain post where "c # cs = [] @ w @ post" "\<not> wordOpt prev"
        "post = [] \<or> \<not> isWord (hd post)" by auto
      then show ?thesis by (intro exI [of _ "[]"] exI [of _ post]) simp
    next
      assume "?R (Some c) cs"
      then obtain pre post where e: "cs = pre @ w @ post"
        and l: "if pre = [] then \<not> wordOpt (Some c) else \<not> isWord (last pre)"
        and r: "post = [] \<or> \<not> isWord (hd post)" by blast
      from l have "\<not> isWord (last (c # pre))" by (auto simp: wordOpt_def split: if_splits)
      with e r show ?thesis
        by (intro exI [of _ "c # pre"] exI [of _ post]) simp
    qed
  qed
  with Cons.IH [of "Some c"] show ?case
    by (simp add: match_word_at_lits [OF assms])
qed

lemma test_word_whole_word:
  assumes "w \<noteq> []" "isWord (hd w)" "isWord (last w)"
  shows "test_word (map Lit w) None t \<longleftrightarrow> whole_word w t"
proof -
  have "(if pre = [] then \<not> wordOpt None else \<not> isWord (last pre))
      \<longleftrightarrow> (pre = [] \<or> \<not> isWord (last pre))" for pre
    by (simp add: wordOpt_def)
  then show ?thesis
    unfolding whole_word_def test_word_lits [OF assms] by simp
qed

lemma letters_word:
  "isWord (CHR ''s'')" "isWord (CHR ''f'')" "isWord (CHR ''o'')" "isWord (CHR ''n'')"
  by (simp_all add: isWord_def isLetter_def code_def)

lemma hasSFText_iff:
  "hasSFText t \<longleftrightarrow>
     whole_word ''sf'' t \<or> whole_word ''san francisco'' t \<or> whole_word ''sanfrancisco'' t \<or>
     test_word (indicator_regex ''s.f.'') None t \<or> whole_word ''san fran'' t"
proof -
  have 1: "indicator_regex ''sf'' = map Lit ''sf''"
    "indicator_regex ''san francisco'' = map Lit ''san francisco''"
    "indicator_regex ''sanfrancisco'' = map Lit ''sanfrancisco''"
    "indicator_regex ''san fran'' = map Lit ''san fran''"
    by simp_all
  have 2: "test_word (map Lit ''sf'') None t \<longleftrightarrow> whole_word ''sf'' t"
    "test_word (map Lit ''san francisco'') None t \<longleftrightarrow> whole_word ''san francisco'' t"
    "test_word (map Lit ''sanfrancisco'') None t \<longleftrightarrow> whole_word ''sanfrancisco'' t"
    "test_word (map Lit ''san fran'') None t \<longleftrightarrow> whole_word ''san fran'' t"
    by (rule test_word_whole_word; simp add: letters_word)+
  show ?thesis
    unfolding hasSFText_def sfIndicators_def list_ex_Cons_iff list_ex_Nil_iff 1 2 by blast
qed

lemma handler_sf_iff:
  "handler_sf a \<longleftrightarrow>
     contains (toLowerCase a) ''sf'' \<or> contains (toLowerCase a) ''san francisco'' \<or>
     contains (toLowerCase a) ''sanfrancisco'' \<or>
     test_anywhere [Lit (CHR ''9''), Lit (CHR ''4''), Range (CHR ''0'') (CHR ''1''), Digit, Digit]
       (toLowerCase a)"
  unfolding handler_sf_def Let_def handler_sfIndicators_def list_ex_Cons_iff list_ex_Nil_iff str_includes_iff
  by blast

text \<open>
  C6, as amended. The classifier of lib/validators.js matches the indicators \<open>sf\<close>,
  \<open>san francisco\<close>, \<open>sanfrancisco\<close> and \<open>san fran\<close>, ignoring case, as whole words or phrases
  (no word character right before or right after), so that one of them occurring only
  inside a larger word does not by itself classify the address, OR-ed with the expression
  built for the indicator \<open>s.f.\<close> and with the postal-code pattern. The classifier the two
  request handlers define for themselves matches \<open>sf\<close>, \<open>san francisco\<close> and \<open>sanfrancisco\<close> as
  plain substrings, OR-ed with the pattern \<^verbatim>\<open>94[01]\d{2}\<close> anywhere. Each of them is true for
  \<open>123 Market St, 94105\<close> and for \<open>San Francisco\<close>, and false for
  \<open>123 Broadway, Oakland, CA 94607\<close>.
\<close>

theorem region_classifier:
  "(validateSFAddress (JStr a) \<longleftrightarrow>
      whole_word ''sf'' (toLowerCase a) \<or> whole_word ''san francisco'' (toLowerCase a) \<or>
      whole_word ''sanfrancisco'' (toLowerCase a) \<or> whole_word ''san fran'' (toLowerCase a) \<or>
      test_word (indicator_regex ''s.f.'') None (toLowerCase a) \<or> hasSFZip (toLowerCase a)) \<and>
   (index_validateSFAddress (JStr a) \<longleftrightarrow>
      contains (toLowerCase a) ''sf'' \<or> contains (toLowerCase a) ''san francisco'' \<or>
      contains (toLowerCase a) ''sanfrancisco'' \<or>
      test_anywhere [Lit (CHR ''9''), Lit (CHR ''4''), Range (CHR ''0'') (CHR ''1''), Digit, Digit]
        (toLowerCase a)) \<and>
   mcp_validateSFAddress (JStr a) = Inr (index_validateSFAddress (JStr a)) \<and>
   validateSFAddress (JStr ''123 Market St, 94105'') \<and>
   validateSFAddress (JStr ''San Francisco'') \<and>
   \<not> validateSFAddress (JStr ''123 Broadway, Oakland, CA 94607'') \<and>
   index_validateSFAddress (JStr ''123 Market St, 94105'') \<and>
   index_validateSFAddress (JStr ''San Francisco'') \<and>
   \<not> index_validateSFAddress (JStr ''123 Broadway, Oakland, CA 94607'')"
proof (intro conjI)
  show "validateSFAddress (JStr a) \<longleftrightarrow>
      whole_word ''sf'' (toLowerCase a) \<or> whole_word ''san francisco'' (toLowerCase a) \<or>
      whole_word ''sanfrancisco'' (toLowerCase a) \<or> whole_word ''san fran'' (toLowerCase a) \<or>
      test_word (indicator_regex ''s.f.'') None (toLowerCase a) \<or> hasSFZip (toLowerCase a)"
    unfolding validateSFAddress_def jsval.case Let_def hasSFText_iff by blast
  show "index_validateSFAddress (JStr a) \<longleftrightarrow>
      contains (toLowerCase a) ''sf'' \<or> contains (toLowerCase a) ''san francisco'' \<or>
      contains (toLowerCase a) ''sanfrancisco'' \<or>
      test_anywhere [Lit (CHR ''9''), Lit (CHR ''4''), Range (CHR ''0'') (CHR ''1''), Digit, Digit]
        (toLowerCase a)"
    by (simp add: index_validateSFAddress_def handler_sf_iff)
  show "mcp_validateSFAddress (JStr a) = Inr (index_validateSFAddress (JStr a))"
    by (simp add: mcp_validateSFAddress_def index_validateSFAddress_def)
  show "validateSFAddress (JStr ''123 Market St, 94105'')" by code_simp
  show "validateSFAddress (JStr ''San Francisco'')" by code_simp
  show "\<not> validateSFAddress (JStr ''123 Broadway, Oakland, CA 94607'')" by code_simp
  show "index_validateSFAddress (JStr ''123 Market St, 94105'')" by code_simp
  show "index_validateSFAddress (JStr ''San Francisco'')" by code_simp
  show "\<not> index_validateSFAddress (JStr ''123 Broadway, Oakland, CA 94607'')" by code_simp
qed

theorem region_classifier_witness:
  "\<not> validateSFAddress (JStr ''123 Satisfy St, Oakland'') \<and>
   \<not> whole_word ''sf'' (toLowerCase ''123 Satisfy St, Oakland'') \<and>
   index_validateSFAddress (JStr ''456 Pine St, SF'') \<and>
   mcp_validateSFAddress (JStr ''456 Pine St, SF'') = Inr True"
proof -
  have a: "\<not> validateSFAddress (JStr ''123 Satisfy St, Oakland'')" by code_simp
  have b: "index_validateSFAddress (JStr ''456 Pine St, SF'')" by code_simp
  from region_classifier [of "''123 Satisfy St, Oakland''"]
    region_classifier [of "''456 Pine St, SF''"] a b
  show ?thesis by simp
qed

text \<open>
  C6 as stated fails for the handlers' classifier: \<open>sf\<close> inside \<open>Satisfy\<close> classifies the
  address as in-region, where the classifier of lib/validators.js says no.
\<close>

theorem handler_substring_counterexample:
  "index_validateSFAddress (JStr ''123 Satisfy St, Oakland'') \<and>
   mcp_validateSFAddress (JStr ''123 Satisfy St, Oakland'') = Inr True \<and>
   \<not> validateSFAddress (JStr ''123 Satisfy St, Oakland'')"
  by code_simp


section \<open>Properties of the request handlers\<close>

lemma emails_mcp_reply [simp]: "emails (mcp_reply st r) = []"
  by (simp add: mcp_reply_def)

lemma sent_index_reply [simp]: "sent (index_reply t) = []"
  by (simp add: index_reply_def)

lemma mcp_request_cleaning_sends:
  assumes "emails (mcp_request_cleaning env send st args) \<noteq> []"
  shows "truthy (arg_name args) \<and> truthy (arg_phone args) \<and> truthy (arg_address args) \<and>
         2 \<le> length (handler_sanitizeString (arg_name args) 100) \<and>
         (\<exists>r. mcp_validatePhone (arg_phone args) = Inr r \<and> valid r) \<and>
         mcp_validateSFAddress (JStr (handler_sanitizeString (arg_address args) 200)) = Inr True \<and>
         or_else (RESEND_API_KEY env) [] \<noteq> []"
  using assms
  by (auto simp: mcp_request_cleaning_def mcp_send_def Let_def
      split: if_splits sum.splits js_error.splits)

lemma mcp_handler_sends:
  assumes "emails (mcp_handler env send now st req) \<noteq> []"
  shows "http_method req = ''POST'' \<and> fst (checkRateLimit (clientIp req) now st) \<and>
         (\<exists>b. body req = Some b \<and> rpc_method b = JStr ''tools/call'' \<and>
              tool b = JStr ''request_cleaning'' \<and>
              emails (mcp_request_cleaning env send (snd (checkRateLimit (clientIp req) now st))
                (arguments b)) \<noteq> [])"
  using assms
  by (auto simp: mcp_handler_def split: if_splits prod.splits bool.splits option.splits)

lemma index_handler_sends:
  assumes "sent (index_handler env send request) \<noteq> []"
  shows "params_name request = JStr ''request_cleaning'' \<and>
         truthy (arg_name (params_arguments request)) \<and>
         truthy (arg_phone (params_arguments request)) \<and>
         truthy (arg_address (params_arguments request)) \<and>
         2 \<le> length (handler_sanitizeString (arg_name (params_arguments request)) 100) \<and>
         valid (index_validatePhone (arg_phone (params_arguments request))) \<and>
         10 \<le> length (handler_sanitizeString (arg_address (params_arguments request)) 200) \<and>
         index_validateSFAddress
           (JStr (handler_sanitizeString (arg_address (params_arguments request)) 200))"
  using assms
  by (auto simp: index_handler_def Let_def split: if_splits)

text \<open>
  C1, as amended. The HTTP handler hands a mail to the Notifier only if its rate limiter
  admitted the request, the three fields are truthy, the sanitized name has at least two
  characters, the handler's own phone check (exactly ten digits) is valid and the handler's
  own region check of the sanitized address is true. The stdio handler does so only if the
  three fields are truthy, the sanitized name has at least two characters, its phone check
  is valid, the sanitized address has at least ten characters and its region check is true;
  it consults no rate limiter.
\<close>

theorem notifier_gates:
  "(emails (mcp_handler env send now st req) \<noteq> [] \<longrightarrow>
      fst (checkRateLimit (clientIp req) now st) \<and>
      (\<exists>b. body req = Some b \<and>
         truthy (arg_name (arguments b)) \<and> truthy (arg_phone (arguments b)) \<and>
         truthy (arg_address (arguments b)) \<and>
         2 \<le> length (handler_sanitizeString (arg_name (arguments b)) 100) \<and>
         (\<exists>r. mcp_validatePhone (arg_phone (arguments b)) = Inr r \<and> valid r) \<and>
         mcp_validateSFAddress (JStr (handler_sanitizeString (arg_address (arguments b)) 200))
           = Inr True)) \<and>
   (sent (index_handler ienv send request) \<noteq> [] \<longrightarrow>
      truthy (arg_name (params_arguments request)) \<and>
      truthy (arg_phone (params_arguments request)) \<and>
      truthy (arg_address (params_arguments request)) \<and>
      2 \<le> length (handler_sanitizeString (arg_name (params_arguments request)) 100) \<and>
      valid (index_validatePhone (arg_phone (params_arguments request))) \<and>
      10 \<le> length (handler_sanitizeString (arg_address (params_arguments request)) 200) \<and>
      index_validateSFAddress
        (JStr (handler_sanitizeString (arg_address (params_arguments request)) 200)))"
proof (rule conjI; rule impI)
  assume a: "emails (mcp_handler env send now st req) \<noteq> []"
  from mcp_handler_sends [OF a] obtain b where b: "body req = Some b"
    and e: "emails (mcp_request_cleaning env send (snd (checkRateLimit (clientIp req) now st))
                (arguments b)) \<noteq> []"
    by blast
  from mcp_handler_sends [OF a] have "fst (checkRateLimit (clientIp req) now st)" by blast
  with b mcp_request_cleaning_sends [OF e]
  show "fst (checkRateLimit (clientIp req) now st) \<and>
      (\<exists>b. body req = Some b \<and>
         truthy (arg_name (arguments b)) \<and> truthy (arg_phone (arguments b)) \<and>
         truthy (arg_address (arguments b)) \<and>
         2 \<le> length (handler_sanitizeString (arg_name (arguments b)) 100) \<and>
         (\<exists>r. mcp_validatePhone (arg_phone (arguments b)) = Inr r \<and> valid r) \<and>
         mcp_validateSFAddress (JStr (handler_sanitizeString (arg_address (arguments b)) 200))
           = Inr True)"
    by blast
next
  assume "sent (index_handler ienv send request) \<noteq> []"
  from index_handler_sends [OF this]
  show "truthy (arg_name (params_arguments request)) \<and>
      truthy (arg_phone (params_arguments request)) \<and>
      truthy (arg_address (params_arguments request)) \<and>
      2 \<le> length (handler_sanitizeString (arg_name (params_arguments request)) 100) \<and>
      valid (index_validatePhone (arg_phone (params_arguments request))) \<and>
      10 \<le> length (handler_sanitizeString (arg_address (params_arguments request)) 200) \<and>
      index_validateSFAddress
        (JStr (handler_sanitizeString (arg_address (params_arguments request)) 200))"
    by blast
qed


theorem notifier_gates_witness:
  "emails (mcp_handler test_env
      (\<lambda>m. Delivered) 1000 Map.empty
      (tools_call (booking (JStr ''John Doe'') (JStr ''4155551234'')
         (JStr ''123 Market St, San Francisco, CA 94105'')))) \<noteq> [] \<and>
   fst (checkRateLimit ''203.0.113.7'' 1000 Map.empty) \<and>
   mcp_validateSFAddress
     (JStr (handler_sanitizeString (JStr ''123 Market St, San Francisco, CA 94105'') 200)) = Inr True \<and>
   sent (index_handler index_test_env
      (\<lambda>m. Delivered)
      (call_tool (booking (JStr ''John Doe'') (JStr ''4155551234'')
         (JStr ''123 Market St, San Francisco, CA 94105'')))) \<noteq> [] \<and>
   valid (index_validatePhone (JStr ''4155551234'')) \<and>
   index_validateSFAddress
     (JStr (handler_sanitizeString (JStr ''123 Market St, San Francisco, CA 94105'') 200))"
proof -
  have m: "emails (mcp_handler test_env
      (\<lambda>m. Delivered) 1000 Map.empty
      (tools_call (booking (JStr ''John Doe'') (JStr ''4155551234'')
         (JStr ''123 Market St, San Francisco, CA 94105'')))) \<noteq> []"
    by code_simp
  have i: "sent (index_handler index_test_env
      (\<lambda>m. Delivered)
      (call_tool (booking (JStr ''John Doe'') (JStr ''4155551234'')
         (JStr ''123 Market St, San Francisco, CA 94105'')))) \<noteq> []"
    by code_simp
  have c: "clientIp (tools_call (booking (JStr ''John Doe'') (JStr ''4155551234'')
         (JStr ''123 Market St, San Francisco, CA 94105''))) = ''203.0.113.7''"
    by (simp add: clientIp_def or_else_def tools_call_def)
  from notifier_gates [of test_env "\<lambda>m. Delivered" 1000 Map.empty
      "(tools_call (booking (JStr ''John Doe'') (JStr ''4155551234'')
         (JStr ''123 Market St, San Francisco, CA 94105'')))"
      index_test_env
      "(call_tool (booking (JStr ''John Doe'') (JStr ''4155551234'')
         (JStr ''123 Market St, San Francisco, CA 94105'')))"] m i c
  show ?thesis by (simp add: tools_call_def call_tool_def booking_def)
qed

text \<open>
  C1 as stated fails: both handlers send the mail for a name and a phone number that the
  validators of lib/validators.js reject.
\<close>

theorem notifier_weaker_gates_counterexample:
  "emails (mcp_handler test_env
      (\<lambda>m. Delivered) 1000 Map.empty
      (tools_call (booking (JStr ''R2-D2'') (JStr ''0155551234'')
         (JStr ''1 Main St, San Francisco'')))) \<noteq> [] \<and>
   sent (index_handler index_test_env
      (\<lambda>m. Delivered)
      (call_tool (booking (JStr ''R2-D2'') (JStr ''0155551234'')
         (JStr ''1 Main St, San Francisco'')))) \<noteq> [] \<and>
   \<not> name_valid (validateName (JStr ''R2-D2'')) \<and>
   \<not> valid (validatePhone (JStr ''0155551234''))"
  by code_simp

text \<open>
  C7, as amended. A request with all fields present that passes the rate limit (HTTP
  handler), the name check and the phone check, and whose sanitized address is classified
  out of region, gets exactly the fixed decline message, and no mail goes to the Notifier;
  in the stdio handler this holds when the sanitized address has at least ten characters,
  and a shorter one gets the complete-address error instead, again without a mail.
\<close>

theorem out_of_region_declined:
  "(http_method req = ''POST'' \<and> checkRateLimit (clientIp req) now st = (True, st') \<and>
    body req = Some b \<and> json_length b \<le> 10000 \<and>
    rpc_method b = JStr ''tools/call'' \<and> tool b = JStr ''request_cleaning'' \<and>
    truthy (arg_name (arguments b)) \<and> truthy (arg_phone (arguments b)) \<and>
    truthy (arg_address (arguments b)) \<and>
    2 \<le> length (handler_sanitizeString (arg_name (arguments b)) 100) \<and>
    mcp_validatePhone (arg_phone (arguments b)) = Inr r \<and> valid r \<and>
    mcp_validateSFAddress (JStr (handler_sanitizeString (arg_address (arguments b)) 200))
      = Inr False
    \<longrightarrow> mcp_handler env send now st req
        = \<lparr>response = Some (Json 200 (Content decline_message)), emails = [], store = st'\<rparr>) \<and>
   (params_name request = JStr ''request_cleaning'' \<and>
    truthy (arg_name (params_arguments request)) \<and>
    truthy (arg_phone (params_arguments request)) \<and>
    truthy (arg_address (params_arguments request)) \<and>
    2 \<le> length (handler_sanitizeString (arg_name (params_arguments request)) 100) \<and>
    valid (index_validatePhone (arg_phone (params_arguments request))) \<and>
    \<not> index_validateSFAddress
        (JStr (handler_sanitizeString (arg_address (params_arguments request)) 200))
    \<longrightarrow> index_handler ienv send request
        = \<lparr>reply =
             (if length (handler_sanitizeString (arg_address (params_arguments request)) 200) < 10
              then ''Error: Please provide a complete address.'' else decline_message),
           sent = []\<rparr>)"
proof (rule conjI; rule impI)
  assume a: "http_method req = ''POST'' \<and> checkRateLimit (clientIp req) now st = (True, st') \<and>
    body req = Some b \<and> json_length b \<le> 10000 \<and>
    rpc_method b = JStr ''tools/call'' \<and> tool b = JStr ''request_cleaning'' \<and>
    truthy (arg_name (arguments b)) \<and> truthy (arg_phone (arguments b)) \<and>
    truthy (arg_address (arguments b)) \<and>
    2 \<le> length (handler_sanitizeString (arg_name (arguments b)) 100) \<and>
    mcp_validatePhone (arg_phone (arguments b)) = Inr r \<and> valid r \<and>
    mcp_validateSFAddress (JStr (handler_sanitizeString (arg_address (arguments b)) 200))
      = Inr False"
  then have "mcp_request_cleaning env send st' (arguments b)
      = mcp_reply st' (Json 200 (Content decline_message))"
    by (simp add: mcp_request_cleaning_def Let_def)
  with a show "mcp_handler env send now st req
        = \<lparr>response = Some (Json 200 (Content decline_message)), emails = [], store = st'\<rparr>"
    by (simp add: mcp_handler_def mcp_reply_def)
next
  assume "params_name request = JStr ''request_cleaning'' \<and>
    truthy (arg_name (params_arguments request)) \<and>
    truthy (arg_phone (params_arguments request)) \<and>
    truthy (arg_address (params_arguments request)) \<and>
    2 \<le> length (handler_sanitizeString (arg_name (params_arguments request)) 100) \<and>
    valid (index_validatePhone (arg_phone (params_arguments request))) \<and>
    \<not> index_validateSFAddress
        (JStr (handler_sanitizeString (arg_address (params_arguments request)) 200))"
  then show "index_handler ienv send request
        = \<lparr>reply =
             (if length (handler_sanitizeString (arg_address (params_arguments request)) 200) < 10
              then ''Error: Please provide a complete address.'' else decline_message),
           sent = []\<rparr>"
    by (simp add: index_handler_def Let_def index_reply_def)
qed

theorem out_of_region_declined_witness:
  "response (mcp_handler test_env
      (\<lambda>m. Delivered) 1000 Map.empty
      (tools_call (booking (JStr ''Jane Doe'') (JStr ''5105551234'')
         (JStr ''456 Broadway, Oakland, CA 94607''))))
     = Some (Json 200 (Content decline_message)) \<and>
   emails (mcp_handler test_env
      (\<lambda>m. Delivered) 1000 Map.empty
      (tools_call (booking (JStr ''Jane Doe'') (JStr ''5105551234'')
         (JStr ''456 Broadway, Oakland, CA 94607'')))) = [] \<and>
   index_handler index_test_env
      (\<lambda>m. Delivered)
      (call_tool (booking (JStr ''Jane Doe'') (JStr ''5105551234'')
         (JStr ''456 Broadway, Oakland, CA 94607'')))
     = \<lparr>reply = decline_message, sent = []\<rparr>"
proof -
  let ?args = "(booking (JStr ''Jane Doe'') (JStr ''5105551234'')
         (JStr ''456 Broadway, Oakland, CA 94607''))"
  let ?b = "\<lparr>rpc_method = JStr ''tools/call'', tool = JStr ''request_cleaning'',
          arguments = ?args, json_length = 160\<rparr>"
  let ?req = "tools_call ?args"
  let ?request = "call_tool ?args"
  have h1: "checkRateLimit (clientIp ?req) 1000 Map.empty
      = (True, [''203.0.113.7'' \<mapsto> [1000]])"
    by (simp add: clientIp_def or_else_def tools_call_def checkRateLimit_def RATE_LIMIT_def
        RATE_WINDOW_def)
  have h2: "2 \<le> length (handler_sanitizeString (JStr ''Jane Doe'') 100)" by code_simp
  have h3: "mcp_validatePhone (JStr ''5105551234'')
      = Inr \<lparr>valid = True, cleaned = Some ''510-555-1234''\<rparr>" by code_simp
  have h4: "mcp_validateSFAddress
      (JStr (handler_sanitizeString (JStr ''456 Broadway, Oakland, CA 94607'') 200)) = Inr False"
    by code_simp
  have h5: "valid (index_validatePhone (JStr ''5105551234''))" by code_simp
  have h6: "\<not> index_validateSFAddress
      (JStr (handler_sanitizeString (JStr ''456 Broadway, Oakland, CA 94607'') 200))"
    by code_simp
  have h7: "\<not> length (handler_sanitizeString (JStr ''456 Broadway, Oakland, CA 94607'') 200) < 10"
    by code_simp
  from out_of_region_declined [where req = ?req and now = 1000 and st = Map.empty
      and st' = "[''203.0.113.7'' \<mapsto> [1000]]" and b = ?b
      and r = "\<lparr>valid = True, cleaned = Some ''510-555-1234''\<rparr>"
      and env = test_env
      and send = "\<lambda>m. Delivered" and request = ?request
      and ienv = index_test_env]
    h1 h2 h3 h4 h5 h6 h7
  show ?thesis by (simp add: tools_call_def call_tool_def booking_def)
qed

text \<open>
  C7 as stated fails in the stdio handler: the out-of-region address \<open>Oakland\<close> is answered
  with the complete-address error, not with the decline message.
\<close>

theorem short_address_counterexample:
  "reply (index_handler index_test_env
      (\<lambda>m. Delivered)
      (call_tool (booking (JStr ''Jane Doe'') (JStr ''5105551234'')
         (JStr ''Oakland''))))
     = ''Error: Please provide a complete address.'' \<and>
   ''Error: Please provide a complete address.'' \<noteq> decline_message \<and>
   2 \<le> length (handler_sanitizeString (JStr ''Jane Doe'') 100) \<and>
   valid (index_validatePhone (JStr ''5105551234'')) \<and>
   \<not> index_validateSFAddress (JStr (handler_sanitizeString (JStr ''Oakland'') 200))"
  by code_simp

text \<open>
  C9. The phone validator of api/mcp.js has no \<^verbatim>\<open>typeof\<close> test: on the JSON number 4155551234
  it throws a TypeError, which the handler's \<^verbatim>\<open>catch\<close> turns into a 500 answer, where the
  validators of index.js and lib/validators.js return \<open>{valid: false, cleaned: null}\<close>.
\<close>

theorem mcp_validatePhone_throws:
  "mcp_validatePhone (JNum 4155551234) = Inl TypeError \<and>
   index_validatePhone (JNum 4155551234) = \<lparr>valid = False, cleaned = None\<rparr> \<and>
   validatePhone (JNum 4155551234) = \<lparr>valid = False, cleaned = None\<rparr> \<and>
   sanitizeString (JNum 4155551234) 200 = [] \<and>
   validateName (JNum 4155551234)
     = \<lparr>name_valid = False, reason = Some ''Name must be a string''\<rparr> \<and>
   validateSFAddress (JNum 4155551234) = False \<and>
   response (mcp_handler test_env
      (\<lambda>m. Delivered) 1000 Map.empty
      (tools_call (booking (JStr ''John Doe'') (JNum 4155551234)
         (JStr ''123 Market St, San Francisco, CA 94105''))))
     = Some (Json 500 (Error ''Service temporarily unavailable. Please try again.''))"
  by code_simp

end
